theory Spec2Isabelle
  imports Complex_Main
begin

section \<open>Text\<close>

text \<open>
  A Python \<open>str\<close> is a sequence of Unicode code points, so text is a list of
  natural numbers. \<open>ascii\<close> writes an ASCII literal as such a list.
\<close>

type_synonym ustr = "nat list"

definition ascii :: "string \<Rightarrow> ustr" where
  "ascii s = map of_char s"

text \<open>The code points for which \<open>str.isspace\<close> holds: what \<open>str.strip()\<close> removes.\<close>

definition isspace :: "nat \<Rightarrow> bool" where
  "isspace c = (9 \<le> c \<and> c \<le> 13 \<or> 28 \<le> c \<and> c \<le> 32 \<or> c = 133 \<or> c = 160 \<or> c = 5760
     \<or> 8192 \<le> c \<and> c \<le> 8202 \<or> c = 8232 \<or> c = 8233 \<or> c = 8239 \<or> c = 8287 \<or> c = 12288)"

text \<open>The line boundaries of \<open>str.splitlines()\<close>.\<close>

definition linebreak :: "nat \<Rightarrow> bool" where
  "linebreak c = (10 \<le> c \<and> c \<le> 13 \<or> 28 \<le> c \<and> c \<le> 30 \<or> c = 133 \<or> c = 8232 \<or> c = 8233)"

definition py_strip :: "ustr \<Rightarrow> ustr" where
  "py_strip s = rev (dropWhile isspace (rev (dropWhile isspace s)))"

fun py_join :: "ustr \<Rightarrow> ustr list \<Rightarrow> ustr" where
  "py_join sep [] = []"
| "py_join sep [x] = x"
| "py_join sep (x # y # ys) = x @ sep @ py_join sep (y # ys)"

text \<open>
  \<open>splitlines_from cur s\<close>: the lines of \<open>s\<close>, \<open>cur\<close> being the part of the current
  line already read. A carriage return followed by a line feed is one boundary, and the
  text that follows the last boundary is a line only when it is not empty.
\<close>

fun splitlines_from :: "ustr \<Rightarrow> ustr \<Rightarrow> ustr list" where
  "splitlines_from cur [] = (if cur = [] then [] else [cur])"
| "splitlines_from cur [c] = (if linebreak c then [cur] else [cur @ [c]])"
| "splitlines_from cur (c # d # cs) =
     (if c = 13 \<and> d = 10 then cur # splitlines_from [] cs
      else if linebreak c then cur # splitlines_from [] (d # cs)
      else splitlines_from (cur @ [c]) (d # cs))"

definition py_splitlines :: "ustr \<Rightarrow> ustr list" where
  "py_splitlines s = splitlines_from [] s"

text \<open>\<open>str(n)\<close> for a non-negative integer, as the f-strings of the status messages print it.\<close>

function str_nat :: "nat \<Rightarrow> ustr" where
  "str_nat n = (if n < 10 then [48 + n] else str_nat (n div 10) @ [48 + n mod 10])"
  by pat_completeness auto
termination
  by (relation "measure id") auto

declare str_nat.simps [simp del]

text \<open>
  The Unicode database of the Python runtime is not part of the repository. It is a
  parameter: \<open>uni_isalnum\<close> is \<open>str.isalnum\<close> on the code points from 128 on, and
  \<open>uni_lower\<close> is \<open>str.lower\<close> on a string that holds a code point which is neither
  ASCII nor of the (caseless) Arabic blocks.
\<close>

record unicode_tables =
  uni_isalnum :: "nat \<Rightarrow> bool"
  uni_lower :: "ustr \<Rightarrow> ustr"

text \<open>The character class of the Arabic blocks in the sanitizer's second pattern.\<close>

definition arabic :: "nat \<Rightarrow> bool" where
  "arabic c = (1536 \<le> c \<and> c \<le> 1791 \<or> 1872 \<le> c \<and> c \<le> 1919 \<or> 2208 \<le> c \<and> c \<le> 2303
     \<or> 64336 \<le> c \<and> c \<le> 65023 \<or> 65136 \<le> c \<and> c \<le> 65279)"

text \<open>\<open>\w\<close> of a \<open>str\<close> pattern: alphanumeric or the underscore.\<close>

definition is_word :: "unicode_tables \<Rightarrow> nat \<Rightarrow> bool" where
  "is_word db c =
     (if c < 128 then 48 \<le> c \<and> c \<le> 57 \<or> 65 \<le> c \<and> c \<le> 90 \<or> c = 95 \<or> 97 \<le> c \<and> c \<le> 122
      else uni_isalnum db c)"

definition ascii_lower :: "nat \<Rightarrow> nat" where
  "ascii_lower c = (if 65 \<le> c \<and> c \<le> 90 then c + 32 else c)"

definition py_lower :: "unicode_tables \<Rightarrow> ustr \<Rightarrow> ustr" where
  "py_lower db s = (if list_all (\<lambda>c. c < 128 \<or> arabic c) s then map ascii_lower s else uni_lower db s)"

section \<open>The sanitizer's patterns\<close>

text \<open>
  The pieces of \<open>thought_pattern\<close>: a lowercase letter of the pattern, matched under
  \<open>re.IGNORECASE\<close>, and a character class such as \<open>[- ]\<close>. Under \<open>re.IGNORECASE\<close> a
  letter also matches its capital and, for \<open>i\<close>, \<open>s\<close> and \<open>k\<close>, the code points
  U+0130, U+0131, U+017F and U+212A.
\<close>

datatype rx = Letter nat | Class "nat list"

definition ignorecase_eq :: "nat \<Rightarrow> nat \<Rightarrow> bool" where
  "ignorecase_eq p c = (c = p \<or> c + 32 = p \<or> p = 105 \<and> (c = 304 \<or> c = 305)
     \<or> p = 115 \<and> c = 383 \<or> p = 107 \<and> c = 8490)"

fun rx_accepts :: "rx \<Rightarrow> nat \<Rightarrow> bool" where
  "rx_accepts (Letter p) c = ignorecase_eq p c"
| "rx_accepts (Class cs) c = (c \<in> set cs)"

definition letters :: "string \<Rightarrow> rx list" where
  "letters s = map (\<lambda>ch. Letter (of_char ch)) s"

text \<open>The alternatives of \<open>(thought|thinking|reasoning|analysis|chain[- ]of[- ]thought)\<close>.\<close>

definition thought_alternatives :: "rx list list" where
  "thought_alternatives =
     [letters ''thought'', letters ''thinking'', letters ''reasoning'', letters ''analysis'',
      letters ''chain'' @ [Class (ascii ''- '')] @ letters ''of'' @ [Class (ascii ''- '')]
        @ letters ''thought'']"

text \<open>
  \<open>\b\<close> between the code point in front of a position and the one behind it (\<open>None\<close> at
  the start and at the end of the line).
\<close>

definition word_boundary :: "unicode_tables \<Rightarrow> nat option \<Rightarrow> nat option \<Rightarrow> bool" where
  "word_boundary db prev nxt =
     ((case prev of None \<Rightarrow> False | Some c \<Rightarrow> is_word db c)
      \<noteq> (case nxt of None \<Rightarrow> False | Some c \<Rightarrow> is_word db c))"

definition first_cp :: "ustr \<Rightarrow> nat option" where
  "first_cp s = (case s of [] \<Rightarrow> None | c # cs \<Rightarrow> Some c)"

text \<open>
  \<open>match_seq rs prev s\<close> matches the pieces \<open>rs\<close> at the start of \<open>s\<close> and returns
  the last code point it read and the rest of the line.
\<close>

fun match_seq :: "rx list \<Rightarrow> nat option \<Rightarrow> ustr \<Rightarrow> (nat option \<times> ustr) option" where
  "match_seq [] prev s = Some (prev, s)"
| "match_seq (r # rs) prev [] = None"
| "match_seq (r # rs) prev (c # cs) =
     (if rx_accepts r c then match_seq rs (Some c) cs else None)"

definition match_here :: "unicode_tables \<Rightarrow> nat option \<Rightarrow> ustr \<Rightarrow> bool" where
  "match_here db prev s =
     (word_boundary db prev (first_cp s) \<and>
      list_ex (\<lambda>alt. case match_seq alt prev s of
                 None \<Rightarrow> False
               | Some (lastc, rest) \<Rightarrow> word_boundary db lastc (first_cp rest))
        thought_alternatives)"

text \<open>\<open>thought_pattern.search(ln)\<close>: a match at some position of the line.\<close>

fun search_from :: "unicode_tables \<Rightarrow> nat option \<Rightarrow> ustr \<Rightarrow> bool" where
  "search_from db prev [] = match_here db prev []"
| "search_from db prev (c # cs) = (match_here db prev (c # cs) \<or> search_from db (Some c) cs)"

definition thought_pattern_search :: "unicode_tables \<Rightarrow> ustr \<Rightarrow> bool" where
  "thought_pattern_search db line = search_from db None line"

text \<open>
  The second pattern: one or more Arabic code points, then any number of groups of one
  or more other code points followed by one or more Arabic ones. \<open>group_star\<close> is the
  greedy repetition of the group: it returns what the groups matched and the rest.
\<close>

function group_star :: "ustr \<Rightarrow> ustr \<times> ustr" where
  "group_star s =
     (let n = takeWhile (\<lambda>c. \<not> arabic c) s; r1 = dropWhile (\<lambda>c. \<not> arabic c) s;
          a = takeWhile arabic r1; r2 = dropWhile arabic r1
      in if n = [] \<or> a = [] then ([], s)
         else (case group_star r2 of (m, r) \<Rightarrow> (n @ a @ m, r)))"
  by pat_completeness auto
termination
proof (relation "measure length")
  show "wf (measure length)" by simp
next
  fix s n r1 a r2 :: ustr
  assume n: "n = takeWhile (\<lambda>c. \<not> arabic c) s" and r1: "r1 = dropWhile (\<lambda>c. \<not> arabic c) s"
    and r2: "r2 = dropWhile arabic r1" and ne: "\<not> (n = [] \<or> a = [])"
  have "length r2 \<le> length r1" unfolding r2 by (rule length_dropWhile_le)
  moreover have "length n + length r1 = length s"
    unfolding n r1 by (metis length_append takeWhile_dropWhile_id)
  moreover have "0 < length n" using ne by simp
  ultimately have "length r2 < length s" by linarith
  then show "(r2, s) \<in> measure length" by simp
qed

declare group_star.simps [simp del]

definition match_run :: "ustr \<Rightarrow> (ustr \<times> ustr) option" where
  "match_run s =
     (let a = takeWhile arabic s; r1 = dropWhile arabic s
      in if a = [] then None
         else (case group_star r1 of (m, r) \<Rightarrow> Some (a @ m, r)))"

lemma group_star_length: "length (snd (group_star s)) \<le> length s"
proof (induction s rule: group_star.induct)
  case (1 s)
  let ?n = "takeWhile (\<lambda>c. \<not> arabic c) s"
  let ?r1 = "dropWhile (\<lambda>c. \<not> arabic c) s"
  let ?a = "takeWhile arabic ?r1"
  let ?r2 = "dropWhile arabic ?r1"
  show ?case
  proof (cases "?n = [] \<or> ?a = []")
    case True
    then show ?thesis by (subst group_star.simps) (simp add: Let_def)
  next
    case False
    have "length (snd (group_star ?r2)) \<le> length ?r2"
      using "1.IH" [OF refl refl refl refl False] .
    moreover have "length ?r2 \<le> length ?r1" by (rule length_dropWhile_le)
    moreover have "length ?r1 \<le> length s" by (rule length_dropWhile_le)
    ultimately have "length (snd (group_star ?r2)) \<le> length s" by linarith
    moreover have "snd (group_star s) = snd (group_star ?r2)"
      using False by (subst group_star.simps) (simp add: Let_def split_beta)
    ultimately show ?thesis by simp
  qed
qed

lemma match_run_shorter:
  assumes "match_run s = Some (m, rest)"
  shows "length rest < length s"
proof -
  let ?a = "takeWhile arabic s"
  let ?r1 = "dropWhile arabic s"
  from assms have ne: "?a \<noteq> []" and rest: "rest = snd (group_star ?r1)"
    by (auto simp: match_run_def Let_def split: if_splits prod.splits)
  have "length ?a + length ?r1 = length s"
    by (metis length_append takeWhile_dropWhile_id)
  moreover have "0 < length ?a" using ne by simp
  moreover have "length rest \<le> length ?r1" unfolding rest by (rule group_star_length)
  ultimately show ?thesis by linarith
qed

text \<open>\<open>re.findall\<close> of the second pattern: the matches from left to right.\<close>

function findall_runs :: "ustr \<Rightarrow> ustr list" where
  "findall_runs [] = []"
| "findall_runs (c # cs) =
     (case match_run (c # cs) of
        None \<Rightarrow> findall_runs cs
      | Some (m, rest) \<Rightarrow> m # findall_runs rest)"
  by pat_completeness auto
termination
proof (relation "measure length")
  show "wf (measure length)" by simp
next
  fix c :: nat and cs :: ustr
  show "(cs, c # cs) \<in> measure length" by simp
next
  fix c :: nat and cs m rest :: ustr and x2 :: "ustr \<times> ustr"
  assume "match_run (c # cs) = Some x2" and "(m, rest) = x2"
  then have "match_run (c # cs) = Some (m, rest)" by simp
  then have "length rest < length (c # cs)" by (rule match_run_shorter)
  then show "(rest, c # cs) \<in> measure length" by simp
qed


section \<open>The output sanitizer\<close>

text \<open>
  Python values that may reach \<open>sanitize_output\<close>: the annotated \<open>str\<close>, and the
  values no annotation keeps out, \<open>None\<close> and \<open>bytes\<close>. An exception is the text of
  its message.
\<close>

datatype pyval = NoneV | Str ustr | Bytes "nat list"

type_synonym exn = ustr

definition boilerplate :: "ustr list" where
  "boilerplate = [ascii ''thinking...'', ascii ''thought for a moment'', ascii ''thinking'']"

text \<open>The loop over the lines; \<open>filtered\<close> is the list it appends to.\<close>

fun filter_lines :: "unicode_tables \<Rightarrow> ustr list \<Rightarrow> ustr list \<Rightarrow> ustr list" where
  "filter_lines db [] filtered = filtered"
| "filter_lines db (line # lines) filtered =
     (if thought_pattern_search db line then filter_lines db lines filtered
      else if py_lower db (py_strip line) \<in> set boilerplate then filter_lines db lines filtered
      else filter_lines db lines (filtered @ [line]))"

definition cleaned_text :: "unicode_tables \<Rightarrow> ustr \<Rightarrow> ustr" where
  "cleaned_text db text = py_strip (py_join [10] (filter_lines db (py_splitlines text) []))"

text \<open>
  The body of the \<open>try\<close>. On \<open>bytes\<close> that are not empty the first
  \<open>thought_pattern.search\<close> raises a \<open>TypeError\<close>: the pattern is a \<open>str\<close> pattern.
\<close>

fun sanitize_body :: "unicode_tables \<Rightarrow> pyval \<Rightarrow> exn + pyval" where
  "sanitize_body db NoneV = Inr NoneV"
| "sanitize_body db (Bytes b) =
     (if b = [] then Inr (Bytes b)
      else Inl (ascii ''cannot use a string pattern on a bytes-like object''))"
| "sanitize_body db (Str text) =
     (if text = [] then Inr (Str text)
      else let cleaned = cleaned_text db text;
               arabic_runs = findall_runs cleaned
           in if arabic_runs \<noteq> []
              then Inr (Str (py_strip (py_join [10] (map py_strip arabic_runs))))
              else Inr (Str cleaned))"

text \<open>\<open>sanitize_output\<close>: the \<open>try\<close> with its \<open>except Exception: return text\<close>.\<close>

definition sanitize_output :: "unicode_tables \<Rightarrow> pyval \<Rightarrow> pyval" where
  "sanitize_output db text = (case sanitize_body db text of Inl e \<Rightarrow> text | Inr r \<Rightarrow> r)"


section \<open>Reading the document and sizing the batches\<close>

text \<open>
  \<open>read_text_from_file\<close> decodes a document: it is a parameter, a function from the
  path to the text or to the exception it raises.
\<close>

type_synonym reader = "ustr \<Rightarrow> exn + ustr"

definition calculate_optimal_batch_size :: "reader \<Rightarrow> ustr \<Rightarrow> nat" where
  "calculate_optimal_batch_size read_text_from_file file_path =
     (let total_chars = (case read_text_from_file file_path of
                           Inr text \<Rightarrow> length text
                         | Inl e \<Rightarrow> 20000)
      in if total_chars < 5000 then 1000
         else if total_chars < 50000 then 2000
         else if total_chars < 200000 then 3000
         else 4000)"

section \<open>The job state of the web application\<close>

record config =
  model :: "ustr option"
  rtl :: bool

record translation_state =
  paused :: bool
  stopped :: bool
  running :: bool
  current_chunk :: nat
  total_chunks :: nat
  translated_chunks :: "ustr list"
  live_feed :: ustr
  status_message :: ustr
  start_time :: "nat option"
  error :: "ustr option"
  output_file :: "ustr option"
  current_config :: "config option"

definition reset :: "translation_state \<Rightarrow> translation_state" where
  "reset s = s\<lparr>paused := False, stopped := False, running := False, current_chunk := 0,
     total_chunks := 0, translated_chunks := [], live_feed := [], status_message := [],
     start_time := None, error := None, output_file := None, current_config := None\<rparr>"

section \<open>The backend client\<close>

definition DEFAULT_PROMPT :: ustr where
  "DEFAULT_PROMPT =
     ascii ''You are a professional English-Arabic translator. ''
     @ ascii ''Translate the following text from English to Arabic in a refined, sophisticated, and professional book-author style. ''
     @ ascii ''Ensure that your translation is clear and does not include any notes, disclaimers, or commentary about the original text's quality. ''
     @ ascii ''Replace numerical figures with their corresponding words in Arabic, including large numbers, decimals, and scientific values. ''
     @ ascii ''Remove any citation numbers that appear at the end of sentences. ''
     @ ascii ''Translate all words, including scientific terms. ''
     @ ascii ''Only provide the translated text.'' @ [10, 10]"

text \<open>
  What one \<open>subprocess.run\<close> does: it raises \<open>TimeoutExpired\<close> after 300 seconds,
  it raises another exception (a launch failure), or the process completes with a return
  code, its output and its error output. An invocation is recorded by the model it names
  and the prompt it is given.
\<close>

datatype run_result = TimedOut exn | Raised exn | Completed int ustr ustr

type_synonym invocation = "ustr option \<times> ustr"

definition str_of :: "pyval \<Rightarrow> ustr" where
  "str_of v = (case v of Str s \<Rightarrow> s | Bytes b \<Rightarrow> b | NoneV \<Rightarrow> [])"

text \<open>
  \<open>translate_with_ollama\<close> of the web application, given what its \<open>subprocess.run\<close>
  does and the invocations made so far; it returns its result and the invocations made.
\<close>

definition translate_with_ollama ::
  "unicode_tables \<Rightarrow> run_result \<Rightarrow> ustr \<Rightarrow> ustr option \<Rightarrow> invocation list \<Rightarrow> ustr \<times> invocation list" where
  "translate_with_ollama db res chunk mdl calls =
     (let prompt = DEFAULT_PROMPT @ chunk @ [10, 10] @ ascii ''Arabic Translation:'';
          calls' = calls @ [(mdl, prompt)]
      in case res of
           TimedOut e \<Rightarrow> (ascii ''[Error: '' @ e @ ascii '']'', calls')
         | Raised e \<Rightarrow> (ascii ''[Error: '' @ e @ ascii '']'', calls')
         | Completed returncode out err \<Rightarrow>
             if returncode \<noteq> 0
             then (ascii ''[Error: '' @ (if err \<noteq> [] then err else ascii ''Unknown error'') @ ascii '']'',
                   calls')
             else (str_of (sanitize_output db (Str (py_strip out))), calls'))"

section \<open>The worker thread of the web application\<close>

text \<open>
  The worker runs beside the request handlers, so it is a machine that takes one step
  at a time. A step is the code between two points where another thread may run: a
  section under \<open>state.lock\<close>, the call of the backend, one sleep of the pause loop.
  \<open>pc\<close> is the place of the worker in \<open>worker_thread\<close>; the loop places carry the
  loop variable \<open>i\<close>.
\<close>

datatype pc =
    Start
  | LoopHead nat
  | PauseWait nat
  | Chunk nat
  | Call nat
  | Store nat ustr
  | Finish
  | Handler exn
  | Done

text \<open>
  A document written by \<open>write_docx\<close>: path, text, direction and alignment. The world
  of a job holds the shared state, the lock, the worker's place and local variables, and
  a record of what the job did outside: the backend invocations, what each of them did,
  and the documents written.
\<close>

type_synonym document = "ustr \<times> ustr \<times> ustr \<times> ustr"

record world =
  state :: translation_state
  lock_held :: bool
  pc :: pc
  doc_text :: ustr
  batch_size :: nat
  n_chunks :: nat
  backend_calls :: "invocation list"
  backend_results :: "run_result list"
  documents :: "document list"

text \<open>
  What a job is started with: the path of the uploaded file, the request's JSON and
  the upload folder of the application.
\<close>

record job =
  filepath :: ustr
  request :: config
  upload_folder :: ustr

text \<open>
  What the world outside gives a step of the worker: what the backend does, the clock
  (in seconds), the formatted time stamp, the exception \<open>write_docx\<close> raises, if any,
  and the text of \<open>get_system_stats\<close>.
\<close>

record env =
  outcome :: run_result
  now :: nat
  stamp :: ustr
  write_docx_raises :: "exn option"
  system_stats :: ustr

definition path_join :: "ustr \<Rightarrow> ustr \<Rightarrow> ustr" where
  "path_join a b = (if a = [] \<or> last a = 47 then a @ b else a @ [47] @ b)"

definition worker_thread :: "reader \<Rightarrow> unicode_tables \<Rightarrow> job \<Rightarrow> env \<Rightarrow> world \<Rightarrow> world option" where
  "worker_thread rd db j e w =
     (let s = state w; B = batch_size w in
      case pc w of
        Start \<Rightarrow>
          (case rd (filepath j) of
             Inl ex \<Rightarrow> Some (w\<lparr>pc := Handler ex\<rparr>)
           | Inr text \<Rightarrow>
               if lock_held w then None
               else let total_chars = length text;
                        bsz = calculate_optimal_batch_size rd (filepath j);
                        total = (total_chars + bsz - 1) div bsz
                    in Some (w\<lparr>state := s\<lparr>running := True, total_chunks := total,
                                   current_chunk := 0, translated_chunks := [], live_feed := [],
                                   start_time := Some (now e), current_config := Some (request j)\<rparr>,
                                 doc_text := text, batch_size := bsz, n_chunks := total,
                                 pc := LoopHead 0\<rparr>))
      | LoopHead i \<Rightarrow>
          if i < length (doc_text w) then
            if lock_held w then None
            else if stopped s then
              Some (w\<lparr>state := s\<lparr>status_message := ascii ''Translation stopped.''\<rparr>, pc := Finish\<rparr>)
            else if paused s then Some (w\<lparr>lock_held := True, pc := PauseWait i\<rparr>)
            else Some (w\<lparr>pc := Chunk i\<rparr>)
          else Some (w\<lparr>pc := Finish\<rparr>)
      | PauseWait i \<Rightarrow>
          if paused s then Some w
          else Some (w\<lparr>lock_held := False, pc := Chunk i\<rparr>)
      | Chunk i \<Rightarrow>
          if lock_held w then None
          else Some (w\<lparr>state := s\<lparr>status_message :=
                         ascii ''Translating chunk '' @ str_nat (i div B + 1) @ ascii ''/''
                         @ str_nat (n_chunks w) @ ascii ''...''\<rparr>,
                       pc := Call i\<rparr>)
      | Call i \<Rightarrow>
          (case translate_with_ollama db (outcome e) (take B (drop i (doc_text w)))
                  (model (request j)) (backend_calls w) of
             (translation, calls') \<Rightarrow>
               Some (w\<lparr>backend_calls := calls',
                       backend_results := backend_results w @ [outcome e],
                       pc := Store i translation\<rparr>))
      | Store i translation \<Rightarrow>
          if lock_held w then None
          else Some (w\<lparr>state := s\<lparr>translated_chunks := translated_chunks s @ [translation],
                                   current_chunk := i div B + 1,
                                   live_feed := live_feed s @ translation @ [10, 10]\<rparr>,
                       pc := LoopHead (i + B)\<rparr>)
      | Finish \<Rightarrow>
          if lock_held w then None
          else if \<not> stopped s then
            (let s' = s\<lparr>running := False, status_message := ascii ''Translation complete.''\<rparr>;
                 out_filename = ascii ''translated_'' @ stamp e @ ascii ''.docx'';
                 out_path = path_join (upload_folder j) out_filename;
                 full_text = py_join [10] (translated_chunks s);
                 direction = (if rtl (request j) then ascii ''rtl'' else ascii ''ltr'');
                 align = (if direction = ascii ''rtl'' then ascii ''right'' else ascii ''left'')
             in case write_docx_raises e of
                  Some ex \<Rightarrow> Some (w\<lparr>state := s', pc := Handler ex\<rparr>)
                | None \<Rightarrow>
                    Some (w\<lparr>state := s'\<lparr>output_file := Some out_filename\<rparr>,
                            documents := documents w @ [(out_path, full_text, direction, align)],
                            pc := Done\<rparr>))
          else Some (w\<lparr>state := s\<lparr>running := False\<rparr>, pc := Done\<rparr>)
      | Handler ex \<Rightarrow>
          if lock_held w then None
          else Some (w\<lparr>state := s\<lparr>running := False, error := Some ex,
                                   status_message := ascii ''Error: '' @ ex\<rparr>,
                       pc := Done\<rparr>)
      | Done \<Rightarrow> None)"

section \<open>The request handlers of the web application\<close>

definition pause_translation :: "translation_state \<Rightarrow> translation_state \<times> bool" where
  "pause_translation s = (let s' = s\<lparr>paused := \<not> paused s\<rparr> in (s', paused s'))"

definition stop_translation :: "translation_state \<Rightarrow> translation_state" where
  "stop_translation s = s\<lparr>stopped := True, running := False\<rparr>"



text \<open>
  The fields \<open>get_status\<close> reads from the state (its progress and elapsed time are
  computed from them and from the clock).
\<close>

record status =
  status_running :: bool
  status_paused :: bool
  status_current_chunk :: nat
  status_total_chunks :: nat
  status_text :: ustr
  status_live_text :: ustr
  status_error :: "ustr option"

definition get_status :: "translation_state \<Rightarrow> status" where
  "get_status s = \<lparr>status_running = running s, status_paused = paused s,
     status_current_chunk = current_chunk s, status_total_chunks = total_chunks s,
     status_text = status_message s, status_live_text = live_feed s, status_error = error s\<rparr>"

section \<open>The job as a transition system\<close>

text \<open>
  An event is a step of the worker or a request. Every handler takes \<open>state.lock\<close>
  for its whole body, so a request is one step, and it can be taken only while the
  worker does not hold the lock. \<open>None\<close>: the event cannot happen now.
\<close>

datatype event = WorkerStep env | PauseRequest | StopRequest | StatusRequest | ExportRequest

fun step :: "reader \<Rightarrow> unicode_tables \<Rightarrow> job \<Rightarrow> event \<Rightarrow> world \<Rightarrow> world option" where
  "step rd db j (WorkerStep e) w = worker_thread rd db j e w"
| "step rd db j PauseRequest w =
     (if lock_held w then None else Some (w\<lparr>state := fst (pause_translation (state w))\<rparr>))"
| "step rd db j StopRequest w =
     (if lock_held w then None else Some (w\<lparr>state := stop_translation (state w)\<rparr>))"
| "step rd db j StatusRequest w = (if lock_held w then None else Some w)"
| "step rd db j ExportRequest w = (if lock_held w then None else Some w)"

fun run :: "reader \<Rightarrow> unicode_tables \<Rightarrow> job \<Rightarrow> event list \<Rightarrow> world \<Rightarrow> world option" where
  "run rd db j [] w = Some w"
| "run rd db j (ev # evs) w =
     (case step rd db j ev w of None \<Rightarrow> None | Some w' \<Rightarrow> run rd db j evs w')"

text \<open>
  \<open>start_translation\<close> resets the state and starts the worker: the world a job begins
  in, \<open>s0\<close> being the state the previous job left.
\<close>

definition start_translation :: "translation_state \<Rightarrow> world" where
  "start_translation s0 = \<lparr>state = reset s0, lock_held = False, pc = Start, doc_text = [],
     batch_size = 0, n_chunks = 0, backend_calls = [], backend_results = [], documents = []\<rparr>"

inductive reachable :: "reader \<Rightarrow> unicode_tables \<Rightarrow> job \<Rightarrow> world \<Rightarrow> bool"
  for rd :: reader and db :: unicode_tables and j :: job where
  reachable_start: "reachable rd db j (start_translation s0)"
| reachable_step: "reachable rd db j w \<Longrightarrow> step rd db j ev w = Some w' \<Longrightarrow> reachable rd db j w'"


section \<open>The desktop front-end: state and backend client\<close>

text \<open>
  The second source file is a front-end of its own with the same pipeline. Its names end
  in \<open>_g\<close> or start with \<open>g_\<close> where the web application has the same name.
\<close>

record translator_state =
  g_paused :: bool
  g_stopped :: bool
  g_running :: bool
  g_current_chunk :: nat
  g_total_chunks :: nat
  g_translated_chunks :: "ustr list"
  g_live_feed :: ustr
  g_status_message :: ustr
  g_start_time :: "nat option"
  g_prompt_template :: "ustr option"
  g_prompt_mode :: ustr
  g_think_enabled :: bool
  g_concise_mode :: bool
  g_filter_thoughts :: bool
  g_doc_direction :: ustr
  g_doc_alignment :: ustr

definition reset_g :: "translator_state \<Rightarrow> translator_state" where
  "reset_g s = s\<lparr>g_paused := False, g_stopped := False, g_running := False,
     g_current_chunk := 0, g_total_chunks := 0, g_translated_chunks := [], g_live_feed := [],
     g_status_message := [], g_start_time := None, g_prompt_template := None,
     g_prompt_mode := ascii ''append'', g_think_enabled := True, g_concise_mode := False,
     g_filter_thoughts := False, g_doc_direction := ascii ''rtl'',
     g_doc_alignment := ascii ''right''\<rparr>"

text \<open>\<open>sub in s\<close> for strings.\<close>

fun contains :: "ustr \<Rightarrow> ustr \<Rightarrow> bool" where
  "contains sub [] = (sub = [])"
| "contains sub (c # cs) = (take (length sub) (c # cs) = sub \<or> contains sub cs)"

text \<open>
  \<open>str.format\<close> belongs to the Python runtime: a parameter, from the template and the
  text to the formatted prompt or to the exception it raises on a malformed template.
\<close>

type_synonym formatter = "ustr \<Rightarrow> ustr \<Rightarrow> exn + ustr"

text \<open>An invocation: the model, whether \<open>--think=false\<close> is passed, and the prompt.\<close>

type_synonym invocation_g = "ustr option \<times> bool \<times> ustr"

text \<open>
  The prompt, from the template, the prompt mode and the concise flag of the state.
\<close>

definition build_prompt :: "formatter \<Rightarrow> ustr option \<Rightarrow> ustr \<Rightarrow> bool \<Rightarrow> ustr \<Rightarrow> exn + ustr" where
  "build_prompt fmt template_opt mode concise chunk =
     (case (case template_opt of
              Some template \<Rightarrow>
                if template \<noteq> [] then
                  if contains (ascii ''{text}'') template then fmt template chunk
                  else if mode = ascii ''replace'' then Inr (template @ [10, 10] @ chunk)
                  else Inr (DEFAULT_PROMPT @ [10] @ template @ [10, 10] @ chunk @ [10, 10]
                            @ ascii ''Arabic Translation:'')
                else Inr (DEFAULT_PROMPT @ chunk @ [10, 10] @ ascii ''Arabic Translation:'')
            | None \<Rightarrow> Inr (DEFAULT_PROMPT @ chunk @ [10, 10] @ ascii ''Arabic Translation:'')) of
        Inl ex \<Rightarrow> Inl ex
      | Inr prompt \<Rightarrow>
          if concise
          then Inr (ascii ''Respond concisely; minimal reasoning.'' @ [10, 10] @ prompt)
          else Inr prompt)"

text \<open>
  The \<open>try\<close> around \<open>subprocess.run\<close> and what follows it: the text returned for what
  the backend did, \<open>filt\<close> being the state's \<open>filter_thoughts\<close>.
\<close>

definition interpret_result :: "unicode_tables \<Rightarrow> bool \<Rightarrow> run_result \<Rightarrow> ustr" where
  "interpret_result db filt res =
     (case res of
        TimedOut e \<Rightarrow> [9888, 65039] @ ascii '' Translation timeout (5 minutes exceeded)''
      | Raised e \<Rightarrow> [10060] @ ascii '' Exception: '' @ e
      | Completed returncode out err \<Rightarrow>
          if returncode \<noteq> 0
          then (let msg = (if err \<noteq> [] then err else out)
                in [10060] @ ascii '' Error: ''
                   @ (if msg \<noteq> [] then py_strip msg else ascii ''unknown error''))
          else (let raw = py_strip out;
                    raw' = (if filt \<and> raw \<noteq> [] then str_of (sanitize_output db (Str raw)) else raw)
                in if raw' \<noteq> [] then raw'
                   else [9888, 65039] @ ascii '' No output received from Ollama.''))"

text \<open>
  \<open>translate_with_ollama\<close> of the desktop front-end. Building the prompt stands before
  the \<open>try\<close>, so an exception of \<open>str.format\<close> leaves the function; nothing the
  backend does can. One invocation is made, whatever it does.
\<close>

definition translate_with_ollama_g ::
  "formatter \<Rightarrow> unicode_tables \<Rightarrow> translator_state \<Rightarrow> run_result \<Rightarrow> ustr \<Rightarrow> ustr option
     \<Rightarrow> invocation_g list \<Rightarrow> exn + (ustr \<times> invocation_g list)" where
  "translate_with_ollama_g fmt db s res chunk mdl calls =
     (case build_prompt fmt (g_prompt_template s) (g_prompt_mode s) (g_concise_mode s) chunk of
        Inl ex \<Rightarrow> Inl ex
      | Inr prompt \<Rightarrow>
          Inr (interpret_result db (g_filter_thoughts s) res,
               calls @ [(mdl, \<not> g_think_enabled s, prompt)]))"

section \<open>The worker thread of the desktop front-end\<close>

text \<open>
  The arguments of \<open>start_translation\<close>, and the working directory of the process.
\<close>

record start_args =
  input_file :: ustr
  chosen_model :: "ustr option"
  prompt_template :: ustr
  prompt_mode :: ustr
  disable_think :: bool
  enable_concise :: bool
  enable_filter :: bool
  cwd :: ustr

record world_g =
  g_state :: translator_state
  g_lock_held :: bool
  g_pc :: pc
  g_doc_text :: ustr
  g_batch_size :: nat
  g_n_chunks :: nat
  g_backend_calls :: "invocation_g list"
  g_backend_results :: "run_result list"
  g_documents :: "document list"

text \<open>\<open>os.path.dirname\<close> on a POSIX path.\<close>

definition path_dirname :: "ustr \<Rightarrow> ustr" where
  "path_dirname p =
     (let hd_part = rev (dropWhile (\<lambda>c. c \<noteq> 47) (rev p))
      in if hd_part \<noteq> [] \<and> \<not> list_all (\<lambda>c. c = 47) hd_part
         then rev (dropWhile (\<lambda>c. c = 47) (rev hd_part)) else hd_part)"

text \<open>The status message of a completed job.\<close>

definition completion_message :: "nat \<Rightarrow> nat \<Rightarrow> ustr \<Rightarrow> ustr \<Rightarrow> ustr" where
  "completion_message elapsed n stats output_name =
     [9989] @ ascii '' Translation complete!'' @ [10]
     @ [9201, 65039] @ ascii '' Time: '' @ str_nat elapsed
     @ ascii ''s | '' @ [128196] @ ascii '' Chunks: '' @ str_nat n
     @ ascii '' | '' @ [128202] @ ascii '' '' @ stats @ [10]
     @ [128190] @ ascii '' Saved to: '' @ output_name"

text \<open>
  \<open>translation_worker\<close>, step by step as \<open>worker_thread\<close> above. It has no section
  under the lock between the check of the flags and the call of the backend, so the place
  \<open>Chunk\<close> does not occur.
\<close>

definition translation_worker ::
  "reader \<Rightarrow> formatter \<Rightarrow> unicode_tables \<Rightarrow> start_args \<Rightarrow> env \<Rightarrow> world_g \<Rightarrow> world_g option" where
  "translation_worker rd fmt db a e w =
     (let s = g_state w; B = g_batch_size w in
      case g_pc w of
        Start \<Rightarrow>
          (case rd (input_file a) of
             Inl ex \<Rightarrow> Some (w\<lparr>g_pc := Handler ex\<rparr>)
           | Inr text \<Rightarrow>
               if g_lock_held w then None
               else let total_chars = length text;
                        total = (total_chars + B - 1) div B
                    in Some (w\<lparr>g_state := s\<lparr>g_running := True, g_total_chunks := total,
                                   g_current_chunk := 0, g_translated_chunks := [],
                                   g_live_feed := [], g_start_time := Some (now e)\<rparr>,
                                 g_doc_text := text, g_n_chunks := total, g_pc := LoopHead 0\<rparr>))
      | LoopHead i \<Rightarrow>
          if i < length (g_doc_text w) then
            if g_lock_held w then None
            else if g_stopped s then
              Some (w\<lparr>g_state := s\<lparr>g_status_message :=
                          [128721] @ ascii '' Translation stopped by user''\<rparr>,
                      g_pc := Finish\<rparr>)
            else if g_paused s then Some (w\<lparr>g_lock_held := True, g_pc := PauseWait i\<rparr>)
            else Some (w\<lparr>g_pc := Call i\<rparr>)
          else Some (w\<lparr>g_pc := Finish\<rparr>)
      | PauseWait i \<Rightarrow>
          if g_paused s then Some w
          else Some (w\<lparr>g_lock_held := False, g_pc := Call i\<rparr>)
      | Chunk i \<Rightarrow> None
      | Call i \<Rightarrow>
          (case translate_with_ollama_g fmt db s (outcome e) (take B (drop i (g_doc_text w)))
                  (chosen_model a) (g_backend_calls w) of
             Inl ex \<Rightarrow> Some (w\<lparr>g_pc := Handler ex\<rparr>)
           | Inr (translated, calls') \<Rightarrow>
               Some (w\<lparr>g_backend_calls := calls',
                       g_backend_results := g_backend_results w @ [outcome e],
                       g_pc := Store i translated\<rparr>))
      | Store i translated \<Rightarrow>
          if g_lock_held w then None
          else Some (w\<lparr>g_state := s\<lparr>g_translated_chunks := g_translated_chunks s @ [translated],
                                     g_current_chunk := i div B + 1,
                                     g_live_feed := g_live_feed s @ translated @ [10]\<rparr>,
                       g_pc := LoopHead (i + B)\<rparr>)
      | Finish \<Rightarrow>
          if g_lock_held w then None
          else if \<not> g_stopped s then
            (let output_dir = path_dirname (input_file a);
                 output_name = ascii ''translated_'' @ stamp e @ ascii ''.docx'';
                 output_path = path_join output_dir output_name;
                 full_translation = py_join [10] (g_translated_chunks s);
                 elapsed = now e - (case g_start_time s of Some t \<Rightarrow> t | None \<Rightarrow> 0)
             in case write_docx_raises e of
                  Some ex \<Rightarrow> Some (w\<lparr>g_state := s\<lparr>g_running := False\<rparr>, g_pc := Handler ex\<rparr>)
                | None \<Rightarrow>
                    Some (w\<lparr>g_state := s\<lparr>g_running := False, g_status_message :=
                               completion_message elapsed (g_n_chunks w) (system_stats e)
                                 output_name\<rparr>,
                            g_documents := g_documents w @
                              [(output_path, full_translation, g_doc_direction s, g_doc_alignment s)],
                            g_pc := Done\<rparr>))
          else Some (w\<lparr>g_state := s\<lparr>g_running := False\<rparr>, g_pc := Done\<rparr>)
      | Handler ex \<Rightarrow>
          if g_lock_held w then None
          else Some (w\<lparr>g_state := s\<lparr>g_running := False,
                                     g_status_message := [10060] @ ascii '' Error: '' @ ex\<rparr>,
                       g_pc := Done\<rparr>)
      | Done \<Rightarrow> None)"

section \<open>The handlers of the desktop front-end\<close>

text \<open>
  The section under the lock of \<open>pause_toggle\<close> and of \<open>stop_translation\<close>; what
  they read afterwards, they read as the status queries do.
\<close>

definition pause_toggle :: "translator_state \<Rightarrow> translator_state \<times> ustr" where
  "pause_toggle s =
     (let s' = s\<lparr>g_paused := \<not> g_paused s\<rparr>
      in (s', if g_paused s' then [9208, 65039] @ ascii '' Paused''
              else [9654, 65039] @ ascii '' Resumed''))"

definition stop_translation_g :: "translator_state \<Rightarrow> translator_state" where
  "stop_translation_g s = s\<lparr>g_stopped := True\<rparr>"

text \<open>
  \<open>export_and_download\<close>, given the time stamp and what \<open>write_docx\<close> does: the
  exception that leaves it, or the path, the message and the document written (none when
  there is nothing to export).
\<close>

definition export_and_download ::
  "ustr \<Rightarrow> env \<Rightarrow> translator_state \<Rightarrow> exn + (ustr option \<times> ustr \<times> document list)" where
  "export_and_download dir e s =
     (if g_translated_chunks s = [] then Inr (None, [10060] @ ascii '' No translation to export'', [])
      else let output_path = path_join dir (ascii ''translation_export_'' @ stamp e @ ascii ''.docx'');
               full_text = py_join [10] (g_translated_chunks s)
           in case write_docx_raises e of
                Some ex \<Rightarrow> Inl ex
              | None \<Rightarrow> Inr (Some output_path, [9989] @ ascii '' Ready to download!'',
                             [(output_path, full_text, g_doc_direction s, g_doc_alignment s)]))"

section \<open>The desktop job as a transition system\<close>

datatype event_g = WorkerStep_g env | PauseToggle | StopClick | StatusQuery | ExportClick env

fun step_g ::
  "reader \<Rightarrow> formatter \<Rightarrow> unicode_tables \<Rightarrow> start_args \<Rightarrow> event_g \<Rightarrow> world_g \<Rightarrow> world_g option" where
  "step_g rd fmt db a (WorkerStep_g e) w = translation_worker rd fmt db a e w"
| "step_g rd fmt db a PauseToggle w =
     (if g_lock_held w then None else Some (w\<lparr>g_state := fst (pause_toggle (g_state w))\<rparr>))"
| "step_g rd fmt db a StopClick w =
     (if g_lock_held w then None else Some (w\<lparr>g_state := stop_translation_g (g_state w)\<rparr>))"
| "step_g rd fmt db a StatusQuery w = (if g_lock_held w then None else Some w)"
| "step_g rd fmt db a (ExportClick e) w =
     (if g_lock_held w then None
      else case export_and_download (cwd a) e (g_state w) of
             Inl ex \<Rightarrow> Some w
           | Inr (p, msg, docs) \<Rightarrow> Some (w\<lparr>g_documents := g_documents w @ docs\<rparr>))"

fun run_g ::
  "reader \<Rightarrow> formatter \<Rightarrow> unicode_tables \<Rightarrow> start_args \<Rightarrow> event_g list \<Rightarrow> world_g \<Rightarrow> world_g option" where
  "run_g rd fmt db a [] w = Some w"
| "run_g rd fmt db a (ev # evs) w =
     (case step_g rd fmt db a ev w of None \<Rightarrow> None | Some w' \<Rightarrow> run_g rd fmt db a evs w')"

text \<open>
  \<open>start_translation\<close> of the desktop front-end: without a file nothing starts;
  otherwise it sizes the batches, resets the state, stores the options and starts the
  worker.
\<close>

definition start_translation_g :: "reader \<Rightarrow> start_args \<Rightarrow> translator_state \<Rightarrow> world_g option" where
  "start_translation_g rd a s0 =
     (if input_file a = [] then None
      else Some \<lparr>g_state = (reset_g s0)\<lparr>
                    g_prompt_template :=
                      (if py_strip (prompt_template a) \<noteq> [] then Some (prompt_template a) else None),
                    g_prompt_mode := prompt_mode a, g_think_enabled := \<not> disable_think a,
                    g_concise_mode := enable_concise a, g_filter_thoughts := enable_filter a\<rparr>,
                 g_lock_held = False, g_pc = Start, g_doc_text = [],
                 g_batch_size = calculate_optimal_batch_size rd (input_file a), g_n_chunks = 0,
                 g_backend_calls = [], g_backend_results = [], g_documents = []\<rparr>)"

inductive reachable_g ::
  "reader \<Rightarrow> formatter \<Rightarrow> unicode_tables \<Rightarrow> start_args \<Rightarrow> world_g \<Rightarrow> bool"
  for rd :: reader and fmt :: formatter and db :: unicode_tables and a :: start_args where
  reachable_g_start: "start_translation_g rd a s0 = Some w \<Longrightarrow> reachable_g rd fmt db a w"
| reachable_g_step:
    "reachable_g rd fmt db a w \<Longrightarrow> step_g rd fmt db a ev w = Some w' \<Longrightarrow> reachable_g rd fmt db a w'"

section \<open>Invariants of a job\<close>

text \<open>
  What holds in every world of a job whose document was read as \<open>T\<close>: the results
  are as many as the chunk index says, the loop variable is the chunk index times the
  batch size, the worker holds the lock exactly in the pause loop, and a document is
  written only by a worker that has finished.
\<close>

definition ctrl_inv :: "reader \<Rightarrow> job \<Rightarrow> ustr \<Rightarrow> world \<Rightarrow> bool" where
  "ctrl_inv rd j T w =
     (let s = state w; B = calculate_optimal_batch_size rd (filepath j);
          N = (length T + B - 1) div B; k = current_chunk s
      in length (translated_chunks s) = k \<and> k \<le> N
         \<and> (pc w \<noteq> Start \<longrightarrow> doc_text w = T \<and> batch_size w = B \<and> n_chunks w = N \<and> total_chunks s = N)
         \<and> (case pc w of
               Start \<Rightarrow> k = 0
             | LoopHead i \<Rightarrow> i = k * B
             | PauseWait i \<Rightarrow> i = k * B \<and> i < length T \<and> paused s
             | Chunk i \<Rightarrow> i = k * B \<and> i < length T
             | Call i \<Rightarrow> i = k * B \<and> i < length T
             | Store i t \<Rightarrow> i = k * B \<and> i < length T
             | Finish \<Rightarrow> k = N \<or> stopped s
             | Handler ex \<Rightarrow> True
             | Done \<Rightarrow> True)
         \<and> (lock_held w \<longleftrightarrow> (\<exists>i. pc w = PauseWait i))
         \<and> (pc w \<noteq> Done \<longrightarrow> documents w = [] \<and> output_file s = None \<and> error s = None)
         \<and> (pc w = Done \<longrightarrow>
               (case output_file s of
                  None \<Rightarrow> documents w = []
                | Some f \<Rightarrow> k = N \<and> error s = None \<and> (\<exists>d a. documents w =
                    [(path_join (upload_folder j) f, py_join [10] (translated_chunks s), d, a)]))))"


text \<open>What holds in every world of a job whose document could not be read.\<close>

definition fail_inv :: "exn \<Rightarrow> world \<Rightarrow> bool" where
  "fail_inv ex w =
     (translated_chunks (state w) = [] \<and> current_chunk (state w) = 0
      \<and> (pc w = Start \<or> pc w = Handler ex \<or> pc w = Done)
      \<and> \<not> lock_held w \<and> backend_calls w = [] \<and> documents w = []
      \<and> output_file (state w) = None)"


definition prompt_of :: "ustr \<Rightarrow> ustr" where
  "prompt_of chunk = DEFAULT_PROMPT @ chunk @ [10, 10] @ ascii ''Arabic Translation:''"

definition reply_of :: "unicode_tables \<Rightarrow> run_result \<Rightarrow> ustr" where
  "reply_of db res = fst (translate_with_ollama db res [] None [])"


text \<open>
  The events of a job that nobody pauses or stops: the start of the worker, four steps
  for every chunk (the check of the flags, the status message, the call, the store), the
  end of the loop and the final section.
\<close>

definition chunk_events :: "env \<Rightarrow> event list" where
  "chunk_events e = [WorkerStep e, WorkerStep e, WorkerStep e, WorkerStep e]"

definition job_events :: "env \<Rightarrow> env list \<Rightarrow> env \<Rightarrow> event list" where
  "job_events e0 es e1 = WorkerStep e0 # concat (map chunk_events es) @ [WorkerStep e1, WorkerStep e1]"

definition ctrl_inv_g :: "reader \<Rightarrow> start_args \<Rightarrow> ustr \<Rightarrow> world_g \<Rightarrow> bool" where
  "ctrl_inv_g rd a T w =
     (let s = g_state w; B = calculate_optimal_batch_size rd (input_file a);
          N = (length T + B - 1) div B; k = g_current_chunk s
      in length (g_translated_chunks s) = k \<and> k \<le> N \<and> g_batch_size w = B
         \<and> (g_pc w \<noteq> Start \<longrightarrow> g_doc_text w = T \<and> g_n_chunks w = N \<and> g_total_chunks s = N)
         \<and> (case g_pc w of
               Start \<Rightarrow> k = 0
             | LoopHead i \<Rightarrow> i = k * B
             | PauseWait i \<Rightarrow> i = k * B \<and> i < length T \<and> g_paused s
             | Chunk i \<Rightarrow> False
             | Call i \<Rightarrow> i = k * B \<and> i < length T
             | Store i t \<Rightarrow> i = k * B \<and> i < length T
             | Finish \<Rightarrow> k = N \<or> g_stopped s
             | Handler ex \<Rightarrow> True
             | Done \<Rightarrow> True)
         \<and> (g_lock_held w \<longleftrightarrow> (\<exists>i. g_pc w = PauseWait i)))"

definition fail_inv_g :: "exn \<Rightarrow> world_g \<Rightarrow> bool" where
  "fail_inv_g ex w =
     (g_translated_chunks (g_state w) = [] \<and> g_current_chunk (g_state w) = 0
      \<and> (g_pc w = Start \<or> g_pc w = Handler ex \<or> g_pc w = Done)
      \<and> \<not> g_lock_held w \<and> g_backend_calls w = [])"


section \<open>Sample jobs\<close>

text \<open>Concrete inputs, on which the theorems below are instantiated.\<close>

definition db0 :: unicode_tables where
  "db0 = \<lparr>uni_isalnum = (\<lambda>c. False), uni_lower = (\<lambda>s. s)\<rparr>"

definition state0 :: translation_state where
  "state0 = \<lparr>paused = True, stopped = True, running = False, current_chunk = 7,
     total_chunks = 9, translated_chunks = [ascii ''old''], live_feed = ascii ''old'',
     status_message = [], start_time = None, error = None, output_file = None,
     current_config = None\<rparr>"

definition job0 :: job where
  "job0 = \<lparr>filepath = ascii ''uploads/book.txt'',
     request = \<lparr>model = Some (ascii ''command-r7b-arabic''), rtl = True\<rparr>,
     upload_folder = ascii ''uploads''\<rparr>"

definition env_ok :: env where
  "env_ok = \<lparr>outcome = Completed 0 (ascii ''ok'') [], now = 0, stamp = ascii ''20240101_000000'',
     write_docx_raises = None, system_stats = ascii ''CPU: 1.0% | RAM: 2.0% ''\<rparr>"

definition env_timeout :: env where
  "env_timeout = \<lparr>outcome = TimedOut (ascii ''Command timed out after 300 seconds''), now = 0,
     stamp = ascii ''20240101_000000'', write_docx_raises = None,
     system_stats = ascii ''CPU: 1.0% | RAM: 2.0% ''\<rparr>"

definition read_short :: reader where
  "read_short p = Inr (ascii ''Hello'')"

definition read_long :: reader where
  "read_long p = Inr (replicate 100000 65)"

definition args0 :: start_args where
  "args0 = \<lparr>input_file = ascii ''/tmp/gradio/book.txt'',
     chosen_model = Some (ascii ''command-r7b-arabic''), prompt_template = [],
     prompt_mode = ascii ''append'', disable_think = False, enable_concise = False,
     enable_filter = True, cwd = ascii ''/home/user''\<rparr>"

definition gstate0 :: translator_state where
  "gstate0 = \<lparr>g_paused = True, g_stopped = True, g_running = False, g_current_chunk = 3,
     g_total_chunks = 3, g_translated_chunks = [ascii ''old''], g_live_feed = ascii ''old'',
     g_status_message = [], g_start_time = None, g_prompt_template = None,
     g_prompt_mode = ascii ''append'', g_think_enabled = True, g_concise_mode = False,
     g_filter_thoughts = False, g_doc_direction = ascii ''rtl'',
     g_doc_alignment = ascii ''right''\<rparr>"

definition fmt0 :: formatter where
  "fmt0 template chunk = Inr template"

text \<open>
  The world in which the worker of the web application waits in its pause loop, after a
  pause request that came before its first look at the flags.
\<close>

definition paused_world :: world where
  "paused_world = \<lparr>state = (reset state0)\<lparr>paused := True, running := True, total_chunks := 1,
       start_time := Some 0, current_config := Some (request job0)\<rparr>,
     lock_held = True, pc = PauseWait 0, doc_text = ascii ''Hello'', batch_size = 1000,
     n_chunks = 1, backend_calls = [], backend_results = [], documents = []\<rparr>"

definition paused_world_g :: world_g where
  "paused_world_g = \<lparr>g_state = (reset_g gstate0)\<lparr>g_filter_thoughts := True, g_paused := True,
       g_running := True, g_total_chunks := 1, g_start_time := Some 0\<rparr>,
     g_lock_held = True, g_pc = PauseWait 0, g_doc_text = ascii ''Hello'', g_batch_size = 1000,
     g_n_chunks = 1, g_backend_calls = [], g_backend_results = [], g_documents = []\<rparr>"




section \<open>The sanitizer's patterns, described\<close>

text \<open>
  The description of the first pattern: somewhere in the line stands one of the
  marker words, in any case, with a word boundary before it and after it.
  \<open>last_cp prev s\<close> is the last code point of \<open>s\<close>, and \<open>prev\<close> for the empty text.
\<close>

definition last_cp :: "nat option \<Rightarrow> ustr \<Rightarrow> nat option" where
  "last_cp prev s = (if s = [] then prev else Some (last s))"



text \<open>
  A text that starts and ends with an Arabic code point: what the second pattern matches.
\<close>

definition arabic_ends :: "ustr \<Rightarrow> bool" where
  "arabic_ends r = (r \<noteq> [] \<and> arabic (hd r) \<and> arabic (last r))"

text \<open>
  The part of a text from its first Arabic code point to its last one.
\<close>

definition arabic_span :: "ustr \<Rightarrow> ustr" where
  "arabic_span s = rev (dropWhile (\<lambda>c. \<not> arabic c) (rev (dropWhile (\<lambda>c. \<not> arabic c) s)))"



section \<open>The steps of the worker, place by place\<close>

lemma worker_Start:
  "pc w = Start \<Longrightarrow> worker_thread rd db j e w =
     (case rd (filepath j) of
        Inl ex \<Rightarrow> Some (w\<lparr>pc := Handler ex\<rparr>)
      | Inr text \<Rightarrow>
          if lock_held w then None
          else Some (w\<lparr>state := (state w)\<lparr>running := True,
                          total_chunks := (length text + calculate_optimal_batch_size rd (filepath j) - 1)
                             div calculate_optimal_batch_size rd (filepath j),
                          current_chunk := 0, translated_chunks := [], live_feed := [],
                          start_time := Some (now e), current_config := Some (request j)\<rparr>,
                        doc_text := text, batch_size := calculate_optimal_batch_size rd (filepath j),
                        n_chunks := (length text + calculate_optimal_batch_size rd (filepath j) - 1)
                             div calculate_optimal_batch_size rd (filepath j),
                        pc := LoopHead 0\<rparr>))"
  by (simp add: worker_thread_def Let_def split: sum.splits)

lemma worker_LoopHead:
  "pc w = LoopHead i \<Longrightarrow> worker_thread rd db j e w =
     (if i < length (doc_text w) then
        if lock_held w then None
        else if stopped (state w) then
          Some (w\<lparr>state := (state w)\<lparr>status_message := ascii ''Translation stopped.''\<rparr>, pc := Finish\<rparr>)
        else if paused (state w) then Some (w\<lparr>lock_held := True, pc := PauseWait i\<rparr>)
        else Some (w\<lparr>pc := Chunk i\<rparr>)
      else Some (w\<lparr>pc := Finish\<rparr>))"
  by (simp add: worker_thread_def Let_def)

lemma worker_PauseWait:
  "pc w = PauseWait i \<Longrightarrow> worker_thread rd db j e w =
     (if paused (state w) then Some w else Some (w\<lparr>lock_held := False, pc := Chunk i\<rparr>))"
  by (simp add: worker_thread_def Let_def)

lemma worker_Chunk:
  "pc w = Chunk i \<Longrightarrow> worker_thread rd db j e w =
     (if lock_held w then None
      else Some (w\<lparr>state := (state w)\<lparr>status_message :=
                     ascii ''Translating chunk '' @ str_nat (i div batch_size w + 1) @ ascii ''/''
                     @ str_nat (n_chunks w) @ ascii ''...''\<rparr>,
                   pc := Call i\<rparr>))"
  by (simp add: worker_thread_def Let_def)

lemma worker_Call:
  "pc w = Call i \<Longrightarrow> worker_thread rd db j e w =
     Some (w\<lparr>backend_calls := snd (translate_with_ollama db (outcome e)
                   (take (batch_size w) (drop i (doc_text w))) (model (request j)) (backend_calls w)),
             backend_results := backend_results w @ [outcome e],
             pc := Store i (fst (translate_with_ollama db (outcome e)
                   (take (batch_size w) (drop i (doc_text w))) (model (request j)) (backend_calls w)))\<rparr>)"
  by (simp add: worker_thread_def Let_def split_beta)

lemma worker_Store:
  "pc w = Store i t \<Longrightarrow> worker_thread rd db j e w =
     (if lock_held w then None
      else Some (w\<lparr>state := (state w)\<lparr>translated_chunks := translated_chunks (state w) @ [t],
                                 current_chunk := i div batch_size w + 1,
                                 live_feed := live_feed (state w) @ t @ [10, 10]\<rparr>,
                   pc := LoopHead (i + batch_size w)\<rparr>))"
  by (simp add: worker_thread_def Let_def)

lemma worker_Finish:
  "pc w = Finish \<Longrightarrow> worker_thread rd db j e w =
     (if lock_held w then None
      else if \<not> stopped (state w) then
        (case write_docx_raises e of
           Some ex \<Rightarrow> Some (w\<lparr>state := (state w)\<lparr>running := False,
                               status_message := ascii ''Translation complete.''\<rparr>, pc := Handler ex\<rparr>)
         | None \<Rightarrow>
             Some (w\<lparr>state := (state w)\<lparr>running := False,
                        status_message := ascii ''Translation complete.'',
                        output_file := Some (ascii ''translated_'' @ stamp e @ ascii ''.docx'')\<rparr>,
                     documents := documents w @
                       [(path_join (upload_folder j) (ascii ''translated_'' @ stamp e @ ascii ''.docx''),
                         py_join [10] (translated_chunks (state w)),
                         if rtl (request j) then ascii ''rtl'' else ascii ''ltr'',
                         if rtl (request j) then ascii ''right'' else ascii ''left'')],
                     pc := Done\<rparr>))
      else Some (w\<lparr>state := (state w)\<lparr>running := False\<rparr>, pc := Done\<rparr>))"
  by (simp add: worker_thread_def Let_def ascii_def split: option.splits)

lemma worker_Handler:
  "pc w = Handler ex \<Longrightarrow> worker_thread rd db j e w =
     (if lock_held w then None
      else Some (w\<lparr>state := (state w)\<lparr>running := False, error := Some ex,
                                 status_message := ascii ''Error: '' @ ex\<rparr>,
                   pc := Done\<rparr>))"
  by (simp add: worker_thread_def Let_def)

lemma worker_Done: "pc w = Done \<Longrightarrow> worker_thread rd db j e w = None"
  by (simp add: worker_thread_def Let_def)


lemma batch_size_pos: "0 < calculate_optimal_batch_size rd p"
  by (simp add: calculate_optimal_batch_size_def Let_def)

lemma chunk_index_less: "0 < B \<Longrightarrow> k * B < L \<Longrightarrow> Suc k \<le> (L + B - 1) div B"
  by (simp add: less_eq_div_iff_mult_less_eq)

lemma chunk_index_done:
  fixes k B L :: nat
  assumes B: "0 < B" and "\<not> k * B < L"
  shows "(L + B - 1) div B \<le> k"
proof -
  from assms have "L + B - 1 < Suc k * B" by simp
  then have "(L + B - 1) div B < Suc k" using B by (simp add: div_less_iff_less_mult)
  then show ?thesis by simp
qed

lemma ctrl_inv_start: "rd (filepath j) = Inr T \<Longrightarrow> ctrl_inv rd j T (start_translation s0)"
  by (simp add: ctrl_inv_def start_translation_def reset_def Let_def)

lemma ctrl_Start:
  assumes rd: "rd (filepath j) = Inr T" and inv: "ctrl_inv rd j T w"
    and st: "worker_thread rd db j e w = Some w'" and pc: "pc w = Start"
  shows "ctrl_inv rd j T w'"
  using rd inv st pc by (auto simp: worker_Start ctrl_inv_def Let_def split: if_splits)

lemma ctrl_LoopHead:
  assumes rd: "rd (filepath j) = Inr T" and inv: "ctrl_inv rd j T w"
    and st: "worker_thread rd db j e w = Some w'" and pc: "pc w = LoopHead i"
  shows "ctrl_inv rd j T w'"
proof -
  let ?B = "calculate_optimal_batch_size rd (filepath j)"
  let ?k = "current_chunk (state w)"
  have B: "0 < ?B" by (rule batch_size_pos)
  have i: "i = ?k * ?B" and T: "doc_text w = T" and lock: "\<not> lock_held w"
    and le: "?k \<le> (length T + ?B - 1) div ?B"
    using inv pc by (simp_all add: ctrl_inv_def Let_def)
  show ?thesis
  proof (cases "i < length T")
    case True
    then show ?thesis using inv st pc T lock
      by (auto simp: worker_LoopHead ctrl_inv_def Let_def split: if_splits)
  next
    case False
    then have "(length T + ?B - 1) div ?B \<le> ?k"
      using chunk_index_done [OF B, of ?k "length T"] i by simp
    then have k: "?k = (length T + ?B - 1) div ?B" using le by simp
    have "w' = w\<lparr>pc := Finish\<rparr>" using st pc T False by (simp add: worker_LoopHead)
    then show ?thesis using inv pc k by (simp add: ctrl_inv_def Let_def)
  qed
qed

lemma ctrl_PauseWait:
  assumes rd: "rd (filepath j) = Inr T" and inv: "ctrl_inv rd j T w"
    and st: "worker_thread rd db j e w = Some w'" and pc: "pc w = PauseWait i"
  shows "ctrl_inv rd j T w'"
  using rd inv st pc by (auto simp: worker_PauseWait ctrl_inv_def Let_def split: if_splits)

lemma ctrl_Chunk:
  assumes rd: "rd (filepath j) = Inr T" and inv: "ctrl_inv rd j T w"
    and st: "worker_thread rd db j e w = Some w'" and pc: "pc w = Chunk i"
  shows "ctrl_inv rd j T w'"
  using rd inv st pc by (auto simp: worker_Chunk ctrl_inv_def Let_def split: if_splits)

lemma ctrl_Call:
  assumes rd: "rd (filepath j) = Inr T" and inv: "ctrl_inv rd j T w"
    and st: "worker_thread rd db j e w = Some w'" and pc: "pc w = Call i"
  shows "ctrl_inv rd j T w'"
  using rd inv st pc by (auto simp: worker_Call ctrl_inv_def Let_def split: if_splits)

lemma ctrl_Store:
  assumes rd: "rd (filepath j) = Inr T" and inv: "ctrl_inv rd j T w"
    and st: "worker_thread rd db j e w = Some w'" and pc: "pc w = Store i t"
  shows "ctrl_inv rd j T w'"
proof -
  let ?B = "calculate_optimal_batch_size rd (filepath j)"
  let ?k = "current_chunk (state w)"
  have B: "0 < ?B" by (rule batch_size_pos)
  have i: "i = ?k * ?B" and less: "i < length T" and bs: "batch_size w = ?B"
    and lock: "\<not> lock_held w"
    using inv pc by (simp_all add: ctrl_inv_def Let_def)
  have suc: "Suc ?k \<le> (length T + ?B - 1) div ?B"
    using chunk_index_less [OF B, of ?k "length T"] i less by simp
  have d: "i div ?B + 1 = Suc ?k" using i B by simp
  have next_i: "i + ?B = Suc ?k * ?B" using i by simp
  have "w' = w\<lparr>state := (state w)\<lparr>translated_chunks := translated_chunks (state w) @ [t],
                                 current_chunk := Suc ?k,
                                 live_feed := live_feed (state w) @ t @ [10, 10]\<rparr>,
                   pc := LoopHead (Suc ?k * ?B)\<rparr>"
    using st pc lock bs d next_i by (simp add: worker_Store)
  then show ?thesis using inv pc suc by (simp add: ctrl_inv_def Let_def)
qed

lemma ctrl_Finish:
  assumes rd: "rd (filepath j) = Inr T" and inv: "ctrl_inv rd j T w"
    and st: "worker_thread rd db j e w = Some w'" and pc: "pc w = Finish"
  shows "ctrl_inv rd j T w'"
proof -
  have lock: "\<not> lock_held w" using inv pc by (simp add: ctrl_inv_def Let_def)
  show ?thesis
  proof (cases "stopped (state w)")
    case True
    then have "w' = w\<lparr>state := (state w)\<lparr>running := False\<rparr>, pc := Done\<rparr>"
      using st pc lock by (simp add: worker_Finish)
    then show ?thesis using inv pc by (simp add: ctrl_inv_def Let_def)
  next
    case False
    show ?thesis
    proof (cases "write_docx_raises e")
      case None
      then have "w' = w\<lparr>state := (state w)\<lparr>running := False,
                        status_message := ascii ''Translation complete.'',
                        output_file := Some (ascii ''translated_'' @ stamp e @ ascii ''.docx'')\<rparr>,
                     documents := documents w @
                       [(path_join (upload_folder j) (ascii ''translated_'' @ stamp e @ ascii ''.docx''),
                         py_join [10] (translated_chunks (state w)),
                         if rtl (request j) then ascii ''rtl'' else ascii ''ltr'',
                         if rtl (request j) then ascii ''right'' else ascii ''left'')],
                     pc := Done\<rparr>"
        using st pc lock False by (simp add: worker_Finish)
      then show ?thesis using inv pc False by (simp add: ctrl_inv_def Let_def)
    next
      case (Some ex)
      then have "w' = w\<lparr>state := (state w)\<lparr>running := False,
                               status_message := ascii ''Translation complete.''\<rparr>, pc := Handler ex\<rparr>"
        using st pc lock False by (simp add: worker_Finish)
      then show ?thesis using inv pc by (simp add: ctrl_inv_def Let_def)
    qed
  qed
qed

lemma ctrl_Handler:
  assumes rd: "rd (filepath j) = Inr T" and inv: "ctrl_inv rd j T w"
    and st: "worker_thread rd db j e w = Some w'" and pc: "pc w = Handler ex"
  shows "ctrl_inv rd j T w'"
  using rd inv st pc by (auto simp: worker_Handler ctrl_inv_def Let_def split: if_splits option.splits)


lemma ctrl_inv_worker:
  assumes rd: "rd (filepath j) = Inr T" and inv: "ctrl_inv rd j T w"
    and st: "worker_thread rd db j e w = Some w'"
  shows "ctrl_inv rd j T w'"
proof (cases "pc w")
  case Start
  with rd inv st show ?thesis by (rule ctrl_Start)
next
  case (LoopHead i)
  with rd inv st show ?thesis by (rule ctrl_LoopHead)
next
  case (PauseWait i)
  with rd inv st show ?thesis by (rule ctrl_PauseWait)
next
  case (Chunk i)
  with rd inv st show ?thesis by (rule ctrl_Chunk)
next
  case (Call i)
  with rd inv st show ?thesis by (rule ctrl_Call)
next
  case (Store i t)
  with rd inv st show ?thesis by (rule ctrl_Store)
next
  case Finish
  with rd inv st show ?thesis by (rule ctrl_Finish)
next
  case (Handler ex)
  with rd inv st show ?thesis by (rule ctrl_Handler)
next
  case Done
  with st show ?thesis by (simp add: worker_Done)
qed

lemma ctrl_inv_paused:
  "ctrl_inv rd j T w \<Longrightarrow> \<not> lock_held w \<Longrightarrow> ctrl_inv rd j T (w\<lparr>state := (state w)\<lparr>paused := b\<rparr>\<rparr>)"
  by (cases "pc w") (simp_all add: ctrl_inv_def Let_def split: option.splits)

lemma ctrl_inv_stopped:
  "ctrl_inv rd j T w \<Longrightarrow> ctrl_inv rd j T (w\<lparr>state := (state w)\<lparr>stopped := True, running := b\<rparr>\<rparr>)"
  by (cases "pc w") (simp_all add: ctrl_inv_def Let_def split: option.splits)

lemma ctrl_inv_step:
  assumes rd: "rd (filepath j) = Inr T" and inv: "ctrl_inv rd j T w"
    and st: "step rd db j ev w = Some w'"
  shows "ctrl_inv rd j T w'"
proof (cases ev)
  case (WorkerStep e)
  then show ?thesis using ctrl_inv_worker [OF rd inv] st by simp
next
  case PauseRequest
  then have "\<not> lock_held w" and "w' = w\<lparr>state := (state w)\<lparr>paused := \<not> paused (state w)\<rparr>\<rparr>"
    using st by (auto simp: pause_translation_def Let_def split: if_splits)
  then show ?thesis using inv by (simp add: ctrl_inv_paused)
next
  case StopRequest
  then have "w' = w\<lparr>state := (state w)\<lparr>stopped := True, running := False\<rparr>\<rparr>"
    using st by (auto simp: stop_translation_def split: if_splits)
  then show ?thesis using inv by (simp add: ctrl_inv_stopped)
next
  case StatusRequest
  then show ?thesis using inv st by (auto split: if_splits)
next
  case ExportRequest
  then show ?thesis using inv st by (auto split: if_splits)
qed

lemma reachable_ctrl_inv:
  assumes "reachable rd db j w" and "rd (filepath j) = Inr T"
  shows "ctrl_inv rd j T w"
  using assms
proof (induction rule: reachable.induct)
  case (reachable_start s0)
  then show ?case by (rule ctrl_inv_start)
next
  case (reachable_step w ev w')
  then show ?case using ctrl_inv_step by blast
qed


lemma fail_inv_step:
  assumes rd: "rd (filepath j) = Inl ex" and inv: "fail_inv ex w"
    and st: "step rd db j ev w = Some w'"
  shows "fail_inv ex w'"
proof (cases ev)
  case (WorkerStep e)
  from inv have "pc w = Start \<or> pc w = Handler ex \<or> pc w = Done" by (simp add: fail_inv_def)
  then show ?thesis
  proof (elim disjE)
    assume "pc w = Start"
    then show ?thesis using rd inv st WorkerStep by (auto simp: worker_Start fail_inv_def)
  next
    assume "pc w = Handler ex"
    then show ?thesis using inv st WorkerStep
      by (auto simp: worker_Handler fail_inv_def split: if_splits)
  next
    assume "pc w = Done"
    then show ?thesis using st WorkerStep by (simp add: worker_Done)
  qed
next
  case PauseRequest
  then show ?thesis using inv st
    by (auto simp: fail_inv_def pause_translation_def Let_def split: if_splits)
next
  case StopRequest
  then show ?thesis using inv st
    by (auto simp: fail_inv_def stop_translation_def split: if_splits)
next
  case StatusRequest
  then show ?thesis using inv st by (auto split: if_splits)
next
  case ExportRequest
  then show ?thesis using inv st by (auto split: if_splits)
qed

lemma reachable_fail_inv:
  assumes "reachable rd db j w" and "rd (filepath j) = Inl ex"
  shows "fail_inv ex w"
  using assms
proof (induction rule: reachable.induct)
  case (reachable_start s0)
  show ?case by (simp add: fail_inv_def start_translation_def reset_def)
next
  case (reachable_step w ev w')
  then show ?case using fail_inv_step by blast
qed

lemma run_reachable:
  "reachable rd db j w \<Longrightarrow> run rd db j evs w = Some w' \<Longrightarrow> reachable rd db j w'"
proof (induction evs arbitrary: w)
  case Nil
  then show ?case by simp
next
  case (Cons ev evs)
  from Cons.prems(2) obtain w1 where w1: "step rd db j ev w = Some w1"
    and rest: "run rd db j evs w1 = Some w'"
    by (auto split: option.splits)
  from Cons.prems(1) w1 have "reachable rd db j w1" by (rule reachable_step)
  then show ?case using rest by (rule Cons.IH)
qed

lemma div_ceiling:
  assumes "0 < B"
  shows "(L + B - 1) div B = nat \<lceil>real L / real B\<rceil>"
proof -
  define q where "q = (L + B - 1) div B"
  have "q * B \<le> L + B - 1" unfolding q_def by (rule div_times_less_eq_dividend)
  then have lo: "q * B < L + B" using assms by linarith
  have "L + B - 1 < B + q * B" unfolding q_def using assms by (rule dividend_less_div_times)
  then have hi: "L \<le> q * B" by linarith
  have "real L \<le> real (q * B)" using hi by (rule of_nat_mono)
  then have "real L \<le> real q * real B" by simp
  then have up: "real L / real B \<le> real q" using assms by (simp add: pos_divide_le_eq)
  have "real (q * B) < real (L + B)" using lo by (simp only: of_nat_less_iff)
  then have "(real q - 1) * real B < real L" by (simp add: algebra_simps)
  then have dn: "real q - 1 < real L / real B" using assms by (simp add: pos_less_divide_eq)
  have "\<lceil>real L / real B\<rceil> = int q"
    by (rule ceiling_unique) (use up dn in simp_all)
  then show ?thesis unfolding q_def by simp
qed

section \<open>The batch sizer and the number of chunks\<close>

text \<open>
  C2. For a document text of length \<open>L\<close> the batch sizer returns 1000 below 5000
  characters, 2000 below 50000, 3000 below 200000 and 4000 from there on, and once the
  worker has started, the state's \<open>total_chunks\<close> is the ceiling of \<open>L / B\<close>; a text
  of 100000 characters gets batches of 3000 and 34 chunks.
\<close>

theorem batch_size_and_total_chunks:
  assumes rd: "rd (filepath j) = Inr T"
  shows "calculate_optimal_batch_size rd (filepath j) =
           (if length T < 5000 then 1000 else if length T < 50000 then 2000
            else if length T < 200000 then 3000 else 4000)
         \<and> (\<forall>w. reachable rd db j w \<and> pc w \<noteq> Start \<longrightarrow>
               total_chunks (state w) =
                 nat \<lceil>real (length T) / real (calculate_optimal_batch_size rd (filepath j))\<rceil>)
         \<and> (length T = 100000 \<longrightarrow>
               calculate_optimal_batch_size rd (filepath j) = 3000
               \<and> (\<forall>w. reachable rd db j w \<and> pc w \<noteq> Start \<longrightarrow> total_chunks (state w) = 34))"
proof -
  let ?B = "calculate_optimal_batch_size rd (filepath j)"
  have size: "?B = (if length T < 5000 then 1000 else if length T < 50000 then 2000
                    else if length T < 200000 then 3000 else 4000)"
    using rd by (simp add: calculate_optimal_batch_size_def)
  have total: "total_chunks (state w) = (length T + ?B - 1) div ?B"
    if "reachable rd db j w" and "pc w \<noteq> Start" for w
    using reachable_ctrl_inv [OF that(1) rd] that(2) by (simp add: ctrl_inv_def Let_def)
  have ceil: "total_chunks (state w) = nat \<lceil>real (length T) / real ?B\<rceil>"
    if "reachable rd db j w" and "pc w \<noteq> Start" for w
    using total [OF that] div_ceiling [of ?B "length T", OF batch_size_pos] by simp
  have ex: "?B = 3000 \<and> (\<forall>w. reachable rd db j w \<and> pc w \<noteq> Start \<longrightarrow> total_chunks (state w) = 34)"
    if L: "length T = 100000"
  proof -
    have B: "?B = 3000" using size L by simp
    have "(length T + ?B - 1) div ?B = 34" unfolding B L by simp
    then show ?thesis using total B by simp
  qed
  show ?thesis using size ceil ex by blast
qed

theorem batch_size_and_total_chunks_witness:
  "read_long (filepath job0) = Inr (replicate 100000 65)
   \<and> calculate_optimal_batch_size read_long (filepath job0) = 3000
   \<and> (\<exists>w. run read_long db0 job0 [WorkerStep env_ok] (start_translation state0) = Some w
          \<and> pc w = LoopHead 0 \<and> total_chunks (state w) = 34)"
proof -
  have rd: "read_long (filepath job0) = Inr (replicate 100000 65)" by (simp add: read_long_def)
  have B: "calculate_optimal_batch_size read_long (filepath job0) = 3000"
    by (simp add: calculate_optimal_batch_size_def read_long_def)
  define w where "w = (start_translation state0)\<lparr>state := (reset state0)\<lparr>running := True,
      total_chunks := 34, current_chunk := 0, translated_chunks := [], live_feed := [],
      start_time := Some (now env_ok), current_config := Some (request job0)\<rparr>,
    doc_text := replicate 100000 65, batch_size := 3000, n_chunks := 34, pc := LoopHead 0\<rparr>"
  have run: "run read_long db0 job0 [WorkerStep env_ok] (start_translation state0) = Some w"
    by (simp add: worker_Start start_translation_def rd B w_def)
  have "reachable read_long db0 job0 w"
    using reachable_start run by (rule run_reachable)
  moreover have pc: "pc w = LoopHead 0" by (simp add: w_def)
  ultimately have "total_chunks (state w) = 34"
    using batch_size_and_total_chunks [where rd = read_long and j = job0 and db = db0, OF rd] by simp
  then show ?thesis using rd B run pc by blast
qed

section \<open>Results and chunk index\<close>

lemma short_batch: "calculate_optimal_batch_size read_short p = 1000"
  by (simp add: calculate_optimal_batch_size_def read_short_def ascii_def)


lemma translate_reply: "fst (translate_with_ollama db res chunk mdl calls) = reply_of db res"
  by (simp add: translate_with_ollama_def reply_of_def Let_def split: run_result.splits)

lemma translate_calls:
  "snd (translate_with_ollama db res chunk mdl calls) = calls @ [(mdl, prompt_of chunk)]"
  by (simp add: translate_with_ollama_def prompt_of_def Let_def split: run_result.splits)













lemma run_append:
  "run rd db j (xs @ ys) w = (case run rd db j xs w of None \<Rightarrow> None | Some w' \<Rightarrow> run rd db j ys w')"
  by (induction xs arbitrary: w) (auto split: option.splits)

lemma run_one_chunk:
  assumes "pc w = LoopHead i" and "i < length (doc_text w)" and "\<not> lock_held w"
    and "\<not> stopped (state w)" and "\<not> paused (state w)"
  shows "\<exists>w'. run rd db j (chunk_events e) w = Some w'
           \<and> pc w' = LoopHead (i + batch_size w)
           \<and> translated_chunks (state w') = translated_chunks (state w) @ [reply_of db (outcome e)]
           \<and> \<not> lock_held w' \<and> \<not> stopped (state w') \<and> \<not> paused (state w')
           \<and> doc_text w' = doc_text w \<and> batch_size w' = batch_size w
           \<and> documents w' = documents w \<and> error (state w') = error (state w)
           \<and> output_file (state w') = output_file (state w)"
  using assms
  by (simp add: chunk_events_def worker_LoopHead worker_Chunk worker_Call worker_Store
      translate_reply)

lemma run_chunks:
  assumes "pc w = LoopHead i" and "\<forall>n < length es. i + n * batch_size w < length (doc_text w)"
    and "\<not> lock_held w" and "\<not> stopped (state w)" and "\<not> paused (state w)"
  shows "\<exists>w'. run rd db j (concat (map chunk_events es)) w = Some w'
           \<and> pc w' = LoopHead (i + length es * batch_size w)
           \<and> translated_chunks (state w') =
               translated_chunks (state w) @ map (\<lambda>e. reply_of db (outcome e)) es
           \<and> \<not> lock_held w' \<and> \<not> stopped (state w') \<and> \<not> paused (state w')
           \<and> doc_text w' = doc_text w \<and> batch_size w' = batch_size w
           \<and> documents w' = documents w \<and> error (state w') = error (state w)
           \<and> output_file (state w') = output_file (state w)"
  using assms
proof (induction es arbitrary: w i)
  case Nil
  then show ?case by simp
next
  case (Cons e es)
  from Cons.prems(2) have first: "i < length (doc_text w)" by fastforce
  from run_one_chunk [OF Cons.prems(1) first Cons.prems(3,4,5), of rd db j e]
  obtain w1 where r1: "run rd db j (chunk_events e) w = Some w1"
    and pc1: "pc w1 = LoopHead (i + batch_size w)"
    and tc1: "translated_chunks (state w1) = translated_chunks (state w) @ [reply_of db (outcome e)]"
    and fl1: "\<not> lock_held w1" "\<not> stopped (state w1)" "\<not> paused (state w1)"
    and same1: "doc_text w1 = doc_text w" "batch_size w1 = batch_size w"
       "documents w1 = documents w" "error (state w1) = error (state w)"
       "output_file (state w1) = output_file (state w)"
    by blast
  have rest: "\<forall>n < length es. (i + batch_size w) + n * batch_size w1 < length (doc_text w1)"
  proof (intro allI impI)
    fix n assume "n < length es"
    then have "Suc n < length (e # es)" by simp
    with Cons.prems(2) have "i + Suc n * batch_size w < length (doc_text w)" by blast
    then show "(i + batch_size w) + n * batch_size w1 < length (doc_text w1)"
      using same1 by (simp add: add.assoc)
  qed
  from Cons.IH [OF pc1 rest fl1]
  obtain w2 where r2: "run rd db j (concat (map chunk_events es)) w1 = Some w2"
    and pc2: "pc w2 = LoopHead (i + batch_size w + length es * batch_size w1)"
    and tc2: "translated_chunks (state w2) =
               translated_chunks (state w1) @ map (\<lambda>e. reply_of db (outcome e)) es"
    and fl2: "\<not> lock_held w2" "\<not> stopped (state w2)" "\<not> paused (state w2)"
    and same2: "doc_text w2 = doc_text w1" "batch_size w2 = batch_size w1"
       "documents w2 = documents w1" "error (state w2) = error (state w1)"
       "output_file (state w2) = output_file (state w1)"
    by blast
  have "run rd db j (concat (map chunk_events (e # es))) w = Some w2"
    using r1 r2 by (simp add: run_append)
  moreover have "pc w2 = LoopHead (i + length (e # es) * batch_size w)"
    using pc2 same1 by (simp add: add.assoc)
  ultimately show ?case using tc1 tc2 fl2 same1 same2 by auto
qed

lemma run_job:
  assumes rd: "rd (filepath j) = Inr T"
    and len: "length es = (length T + calculate_optimal_batch_size rd (filepath j) - 1)
                div calculate_optimal_batch_size rd (filepath j)"
    and wr: "write_docx_raises e1 = None"
  shows "\<exists>w. run rd db j (job_events e0 es e1) (start_translation s0) = Some w
           \<and> pc w = Done
           \<and> translated_chunks (state w) = map (\<lambda>e. reply_of db (outcome e)) es
           \<and> current_chunk (state w) = length es
           \<and> error (state w) = None
           \<and> output_file (state w) = Some (ascii ''translated_'' @ stamp e1 @ ascii ''.docx'')
           \<and> documents w =
               [(path_join (upload_folder j) (ascii ''translated_'' @ stamp e1 @ ascii ''.docx''),
                 py_join [10] (map (\<lambda>e. reply_of db (outcome e)) es),
                 if rtl (request j) then ascii ''rtl'' else ascii ''ltr'',
                 if rtl (request j) then ascii ''right'' else ascii ''left'')]"
proof -
  let ?B = "calculate_optimal_batch_size rd (filepath j)"
  let ?N = "(length T + ?B - 1) div ?B"
  have B: "0 < ?B" by (rule batch_size_pos)
  define w0 where "w0 = start_translation s0"
  obtain w1 where s1: "worker_thread rd db j e0 w0 = Some w1" and pc1: "pc w1 = LoopHead 0"
    and tc1: "translated_chunks (state w1) = []"
    and fl1: "\<not> lock_held w1" "\<not> stopped (state w1)" "\<not> paused (state w1)"
    and loc1: "doc_text w1 = T" "batch_size w1 = ?B"
    and out1: "documents w1 = []" "error (state w1) = None" "output_file (state w1) = None"
    using rd by (simp add: w0_def worker_Start start_translation_def reset_def)
  have idx: "\<forall>n < length es. 0 + n * batch_size w1 < length (doc_text w1)"
  proof (intro allI impI)
    fix n assume "n < length es"
    then have n: "n < ?N" using len by simp
    have "n * ?B < length T"
    proof (rule ccontr)
      assume "\<not> n * ?B < length T"
      then have "?N \<le> n" using B by (rule chunk_index_done [rotated])
      then show False using n by simp
    qed
    then show "0 + n * batch_size w1 < length (doc_text w1)" using loc1 by simp
  qed
  from run_chunks [OF pc1 idx fl1, of rd db j]
  obtain w2 where r2: "run rd db j (concat (map chunk_events es)) w1 = Some w2"
    and pc2: "pc w2 = LoopHead (0 + length es * batch_size w1)"
    and tc2: "translated_chunks (state w2) =
               translated_chunks (state w1) @ map (\<lambda>e. reply_of db (outcome e)) es"
    and fl2: "\<not> lock_held w2" "\<not> stopped (state w2)" "\<not> paused (state w2)"
    and same2: "doc_text w2 = doc_text w1" "batch_size w2 = batch_size w1"
       "documents w2 = documents w1" "error (state w2) = error (state w1)"
       "output_file (state w2) = output_file (state w1)"
    by blast
  have reach2: "reachable rd db j w2"
  proof -
    have "run rd db j (WorkerStep e0 # concat (map chunk_events es)) w0 = Some w2"
      using s1 r2 by simp
    then show ?thesis using reachable_start unfolding w0_def by (rule run_reachable [rotated])
  qed
  have cc2: "current_chunk (state w2) = length es"
    using reachable_ctrl_inv [OF reach2 rd] tc2 tc1 by (simp add: ctrl_inv_def Let_def)
  have past: "\<not> length es * ?B < length T"
    using chunk_index_less [OF B, of "length es" "length T"] len by auto
  have pc2': "pc w2 = LoopHead (length es * ?B)" using pc2 loc1 by simp
  have doc2: "doc_text w2 = T" using same2 loc1 by simp
  have fin: "run rd db j [WorkerStep e1, WorkerStep e1] w2 =
     Some (w2\<lparr>state := (state w2)\<lparr>running := False,
                        status_message := ascii ''Translation complete.'',
                        output_file := Some (ascii ''translated_'' @ stamp e1 @ ascii ''.docx'')\<rparr>,
                     documents := documents w2 @
                       [(path_join (upload_folder j) (ascii ''translated_'' @ stamp e1 @ ascii ''.docx''),
                         py_join [10] (translated_chunks (state w2)),
                         if rtl (request j) then ascii ''rtl'' else ascii ''ltr'',
                         if rtl (request j) then ascii ''right'' else ascii ''left'')],
                     pc := Done\<rparr>)"
    using pc2' doc2 past fl2 wr by (simp add: worker_LoopHead worker_Finish)
  have "run rd db j (job_events e0 es e1) (start_translation s0) =
          run rd db j [WorkerStep e1, WorkerStep e1] w2"
    using s1 r2 by (simp add: job_events_def run_append w0_def)
  then show ?thesis using fin tc2 tc1 cc2 same2 out1 by simp
qed

lemma gworker_Start:
  "g_pc w = Start \<Longrightarrow> translation_worker rd fmt db a e w =
     (case rd (input_file a) of
        Inl ex \<Rightarrow> Some (w\<lparr>g_pc := Handler ex\<rparr>)
      | Inr text \<Rightarrow>
          if g_lock_held w then None
          else Some (w\<lparr>g_state := (g_state w)\<lparr>g_running := True,
                          g_total_chunks := (length text + g_batch_size w - 1) div g_batch_size w,
                          g_current_chunk := 0, g_translated_chunks := [], g_live_feed := [],
                          g_start_time := Some (now e)\<rparr>,
                        g_doc_text := text,
                        g_n_chunks := (length text + g_batch_size w - 1) div g_batch_size w,
                        g_pc := LoopHead 0\<rparr>))"
  by (simp add: translation_worker_def Let_def split: sum.splits)

lemma gworker_LoopHead:
  "g_pc w = LoopHead i \<Longrightarrow> translation_worker rd fmt db a e w =
     (if i < length (g_doc_text w) then
        if g_lock_held w then None
        else if g_stopped (g_state w) then
          Some (w\<lparr>g_state := (g_state w)\<lparr>g_status_message :=
                      [128721] @ ascii '' Translation stopped by user''\<rparr>, g_pc := Finish\<rparr>)
        else if g_paused (g_state w) then Some (w\<lparr>g_lock_held := True, g_pc := PauseWait i\<rparr>)
        else Some (w\<lparr>g_pc := Call i\<rparr>)
      else Some (w\<lparr>g_pc := Finish\<rparr>))"
  by (simp add: translation_worker_def Let_def)

lemma gworker_PauseWait:
  "g_pc w = PauseWait i \<Longrightarrow> translation_worker rd fmt db a e w =
     (if g_paused (g_state w) then Some w else Some (w\<lparr>g_lock_held := False, g_pc := Call i\<rparr>))"
  by (simp add: translation_worker_def Let_def)

lemma gworker_Call:
  "g_pc w = Call i \<Longrightarrow> translation_worker rd fmt db a e w =
     (case build_prompt fmt (g_prompt_template (g_state w)) (g_prompt_mode (g_state w))
             (g_concise_mode (g_state w)) (take (g_batch_size w) (drop i (g_doc_text w))) of
        Inl ex \<Rightarrow> Some (w\<lparr>g_pc := Handler ex\<rparr>)
      | Inr prompt \<Rightarrow>
          Some (w\<lparr>g_backend_calls := g_backend_calls w @
                     [(chosen_model a, \<not> g_think_enabled (g_state w), prompt)],
                  g_backend_results := g_backend_results w @ [outcome e],
                  g_pc := Store i (interpret_result db (g_filter_thoughts (g_state w)) (outcome e))\<rparr>))"
  by (simp add: translation_worker_def translate_with_ollama_g_def Let_def split: sum.splits)

lemma gworker_Store:
  "g_pc w = Store i t \<Longrightarrow> translation_worker rd fmt db a e w =
     (if g_lock_held w then None
      else Some (w\<lparr>g_state := (g_state w)\<lparr>
                     g_translated_chunks := g_translated_chunks (g_state w) @ [t],
                     g_current_chunk := i div g_batch_size w + 1,
                     g_live_feed := g_live_feed (g_state w) @ t @ [10]\<rparr>,
                   g_pc := LoopHead (i + g_batch_size w)\<rparr>))"
  by (simp add: translation_worker_def Let_def)

lemma gworker_Finish_stopped:
  "g_pc w = Finish \<Longrightarrow> g_stopped (g_state w) \<Longrightarrow> translation_worker rd fmt db a e w =
     (if g_lock_held w then None
      else Some (w\<lparr>g_state := (g_state w)\<lparr>g_running := False\<rparr>, g_pc := Done\<rparr>))"
  by (simp add: translation_worker_def Let_def)

lemma gworker_Finish_failed:
  "g_pc w = Finish \<Longrightarrow> \<not> g_stopped (g_state w) \<Longrightarrow> write_docx_raises e = Some ex \<Longrightarrow>
   translation_worker rd fmt db a e w =
     (if g_lock_held w then None
      else Some (w\<lparr>g_state := (g_state w)\<lparr>g_running := False\<rparr>, g_pc := Handler ex\<rparr>))"
  by (simp add: translation_worker_def Let_def)

lemma gworker_Finish_written:
  "g_pc w = Finish \<Longrightarrow> \<not> g_stopped (g_state w) \<Longrightarrow> write_docx_raises e = None \<Longrightarrow>
   translation_worker rd fmt db a e w =
     (if g_lock_held w then None
      else Some (w\<lparr>g_state := (g_state w)\<lparr>g_running := False, g_status_message :=
                     completion_message
                       (now e - (case g_start_time (g_state w) of Some t \<Rightarrow> t | None \<Rightarrow> 0))
                       (g_n_chunks w) (system_stats e)
                       (ascii ''translated_'' @ stamp e @ ascii ''.docx'')\<rparr>,
              g_documents := g_documents w @
                [(path_join (path_dirname (input_file a)) (ascii ''translated_'' @ stamp e @ ascii ''.docx''),
                  py_join [10] (g_translated_chunks (g_state w)),
                  g_doc_direction (g_state w), g_doc_alignment (g_state w))],
              g_pc := Done\<rparr>))"
  by (simp add: translation_worker_def Let_def)

lemma gworker_Handler:
  "g_pc w = Handler ex \<Longrightarrow> translation_worker rd fmt db a e w =
     (if g_lock_held w then None
      else Some (w\<lparr>g_state := (g_state w)\<lparr>g_running := False,
                     g_status_message := [10060] @ ascii '' Error: '' @ ex\<rparr>,
                   g_pc := Done\<rparr>))"
  by (simp add: translation_worker_def Let_def)

lemma gworker_Done: "g_pc w = Done \<Longrightarrow> translation_worker rd fmt db a e w = None"
  by (simp add: translation_worker_def Let_def)

lemma gworker_Chunk: "g_pc w = Chunk i \<Longrightarrow> translation_worker rd fmt db a e w = None"
  by (simp add: translation_worker_def Let_def)


lemma ctrl_inv_g_start:
  "rd (input_file a) = Inr T \<Longrightarrow> start_translation_g rd a s0 = Some w \<Longrightarrow> ctrl_inv_g rd a T w"
  by (auto simp: ctrl_inv_g_def start_translation_g_def reset_g_def Let_def split: if_splits)

lemma ctrl_inv_g_worker:
  assumes rd: "rd (input_file a) = Inr T" and inv: "ctrl_inv_g rd a T w"
    and st: "translation_worker rd fmt db a e w = Some w'"
  shows "ctrl_inv_g rd a T w'"
proof -
  let ?B = "calculate_optimal_batch_size rd (input_file a)"
  let ?k = "g_current_chunk (g_state w)"
  have B: "0 < ?B" by (rule batch_size_pos)
  have bs: "g_batch_size w = ?B" and le: "?k \<le> (length T + ?B - 1) div ?B"
    using inv by (simp_all add: ctrl_inv_g_def Let_def)
  show ?thesis
  proof (cases "g_pc w")
    case Start
    then have "\<not> g_lock_held w" using inv by (simp add: ctrl_inv_g_def Let_def)
    then have "w' = w\<lparr>g_state := (g_state w)\<lparr>g_running := True,
                          g_total_chunks := (length T + ?B - 1) div ?B,
                          g_current_chunk := 0, g_translated_chunks := [], g_live_feed := [],
                          g_start_time := Some (now e)\<rparr>,
                        g_doc_text := T, g_n_chunks := (length T + ?B - 1) div ?B,
                        g_pc := LoopHead 0\<rparr>"
      using st Start rd bs by (simp add: gworker_Start)
    then show ?thesis using inv Start by (simp add: ctrl_inv_g_def Let_def)
  next
    case (LoopHead i)
    have i: "i = ?k * ?B" and T: "g_doc_text w = T" and lock: "\<not> g_lock_held w"
      using inv LoopHead by (simp_all add: ctrl_inv_g_def Let_def)
    show ?thesis
    proof (cases "i < length T")
      case True
      then show ?thesis using inv st LoopHead T lock
        by (auto simp: gworker_LoopHead ctrl_inv_g_def Let_def split: if_splits)
    next
      case False
      then have "(length T + ?B - 1) div ?B \<le> ?k"
        using chunk_index_done [OF B, of ?k "length T"] i by simp
      then have k: "?k = (length T + ?B - 1) div ?B" using le by simp
      have "w' = w\<lparr>g_pc := Finish\<rparr>" using st LoopHead T False by (simp add: gworker_LoopHead)
      then show ?thesis using inv LoopHead k by (simp add: ctrl_inv_g_def Let_def)
    qed
  next
    case (PauseWait i)
    then show ?thesis using inv st
      by (auto simp: gworker_PauseWait ctrl_inv_g_def Let_def split: if_splits)
  next
    case (Chunk i)
    then show ?thesis using st by (simp add: gworker_Chunk)
  next
    case (Call i)
    then show ?thesis using inv st
      by (auto simp: gworker_Call ctrl_inv_g_def Let_def split: sum.splits)
  next
    case (Store i t)
    have i: "i = ?k * ?B" and less: "i < length T" and lock: "\<not> g_lock_held w"
      using inv Store by (simp_all add: ctrl_inv_g_def Let_def)
    have suc: "Suc ?k \<le> (length T + ?B - 1) div ?B"
      using chunk_index_less [OF B, of ?k "length T"] i less by simp
    have d: "i div ?B + 1 = Suc ?k" using i B by simp
    have next_i: "i + ?B = Suc ?k * ?B" using i by simp
    have "w' = w\<lparr>g_state := (g_state w)\<lparr>
                     g_translated_chunks := g_translated_chunks (g_state w) @ [t],
                     g_current_chunk := Suc ?k,
                     g_live_feed := g_live_feed (g_state w) @ t @ [10]\<rparr>,
                   g_pc := LoopHead (Suc ?k * ?B)\<rparr>"
      using st Store lock bs d next_i by (simp add: gworker_Store)
    then show ?thesis using inv Store suc by (simp add: ctrl_inv_g_def Let_def)
  next
    case Finish
    have lock: "\<not> g_lock_held w" using inv Finish by (simp add: ctrl_inv_g_def Let_def)
    show ?thesis
    proof (cases "g_stopped (g_state w)")
      case True
      then show ?thesis using inv st Finish lock
        by (auto simp: gworker_Finish_stopped ctrl_inv_g_def Let_def)
    next
      case False
      show ?thesis
      proof (cases "write_docx_raises e")
        case None
        then show ?thesis using inv st Finish lock False
          by (auto simp: gworker_Finish_written ctrl_inv_g_def Let_def)
      next
        case (Some ex)
        then show ?thesis using inv st Finish lock False
          by (auto simp: gworker_Finish_failed ctrl_inv_g_def Let_def)
      qed
    qed
  next
    case (Handler ex)
    then show ?thesis using inv st
      by (auto simp: gworker_Handler ctrl_inv_g_def Let_def split: if_splits)
  next
    case Done
    then show ?thesis using st by (simp add: gworker_Done)
  qed
qed

lemma ctrl_inv_g_paused:
  "ctrl_inv_g rd a T w \<Longrightarrow> \<not> g_lock_held w \<Longrightarrow>
   ctrl_inv_g rd a T (w\<lparr>g_state := (g_state w)\<lparr>g_paused := b\<rparr>\<rparr>)"
  by (cases "g_pc w") (simp_all add: ctrl_inv_g_def Let_def)

lemma ctrl_inv_g_stopped:
  "ctrl_inv_g rd a T w \<Longrightarrow> ctrl_inv_g rd a T (w\<lparr>g_state := (g_state w)\<lparr>g_stopped := True\<rparr>\<rparr>)"
  by (cases "g_pc w") (simp_all add: ctrl_inv_g_def Let_def)

lemma ctrl_inv_g_documents:
  "ctrl_inv_g rd a T w \<Longrightarrow> ctrl_inv_g rd a T (w\<lparr>g_documents := d\<rparr>)"
  by (cases "g_pc w") (simp_all add: ctrl_inv_g_def Let_def)

lemma step_g_request:
  assumes "step_g rd fmt db a ev w = Some w'" and "\<forall>e. ev \<noteq> WorkerStep_g e"
  shows "\<not> g_lock_held w \<and>
     (w' = w\<lparr>g_state := (g_state w)\<lparr>g_paused := \<not> g_paused (g_state w)\<rparr>\<rparr>
      \<or> w' = w\<lparr>g_state := (g_state w)\<lparr>g_stopped := True\<rparr>\<rparr>
      \<or> (\<exists>d. w' = w\<lparr>g_documents := d\<rparr>))"
proof (cases ev)
  case (WorkerStep_g e)
  then show ?thesis using assms by simp
next
  case PauseToggle
  then show ?thesis using assms by (auto simp: pause_toggle_def Let_def split: if_splits)
next
  case StopClick
  then show ?thesis using assms by (auto simp: stop_translation_g_def split: if_splits)
next
  case StatusQuery
  then have "\<not> g_lock_held w" and "w' = w\<lparr>g_documents := g_documents w\<rparr>"
    using assms by (auto split: if_splits)
  then show ?thesis by blast
next
  case (ExportClick e)
  then have lock: "\<not> g_lock_held w" using assms by (auto split: if_splits)
  have "\<exists>d. w' = w\<lparr>g_documents := d\<rparr>"
  proof (cases "export_and_download (cwd a) e (g_state w)")
    case (Inl ex)
    then have "w' = w\<lparr>g_documents := g_documents w\<rparr>" using assms ExportClick lock by simp
    then show ?thesis by blast
  next
    case (Inr r)
    then show ?thesis using assms ExportClick lock by (auto split: prod.splits)
  qed
  then show ?thesis using lock by blast
qed

lemma ctrl_inv_g_step:
  assumes rd: "rd (input_file a) = Inr T" and inv: "ctrl_inv_g rd a T w"
    and st: "step_g rd fmt db a ev w = Some w'"
  shows "ctrl_inv_g rd a T w'"
proof (cases "\<exists>e. ev = WorkerStep_g e")
  case True
  then show ?thesis using ctrl_inv_g_worker [OF rd inv] st by auto
next
  case False
  then have "\<forall>e. ev \<noteq> WorkerStep_g e" by simp
  from step_g_request [OF st this] show ?thesis
    using inv ctrl_inv_g_paused ctrl_inv_g_stopped ctrl_inv_g_documents by metis
qed

lemma reachable_ctrl_inv_g:
  assumes "reachable_g rd fmt db a w" and rd: "rd (input_file a) = Inr T"
  shows "ctrl_inv_g rd a T w"
  using assms(1)
proof (induction rule: reachable_g.induct)
  case (reachable_g_start s0 w)
  with rd show ?case by (rule ctrl_inv_g_start)
next
  case (reachable_g_step w ev w')
  with rd show ?case using ctrl_inv_g_step by blast
qed









lemma fail_inv_g_step:
  assumes rd: "rd (input_file a) = Inl ex" and inv: "fail_inv_g ex w"
    and st: "step_g rd fmt db a ev w = Some w'"
  shows "fail_inv_g ex w'"
proof (cases "\<exists>e. ev = WorkerStep_g e")
  case True
  then obtain e where ev: "ev = WorkerStep_g e" by blast
  from inv have "g_pc w = Start \<or> g_pc w = Handler ex \<or> g_pc w = Done" by (simp add: fail_inv_g_def)
  then show ?thesis
  proof (elim disjE)
    assume "g_pc w = Start"
    then show ?thesis using rd inv st ev by (auto simp: gworker_Start fail_inv_g_def)
  next
    assume "g_pc w = Handler ex"
    then show ?thesis using inv st ev
      by (auto simp: gworker_Handler fail_inv_g_def split: if_splits)
  next
    assume "g_pc w = Done"
    then show ?thesis using st ev by (simp add: gworker_Done)
  qed
next
  case False
  then have "\<forall>e. ev \<noteq> WorkerStep_g e" by simp
  from step_g_request [OF st this] show ?thesis
    using inv by (auto simp: fail_inv_g_def)
qed

lemma reachable_fail_inv_g:
  assumes "reachable_g rd fmt db a w" and rd: "rd (input_file a) = Inl ex"
  shows "fail_inv_g ex w"
  using assms(1)
proof (induction rule: reachable_g.induct)
  case (reachable_g_start s0 w)
  then show ?case
    by (auto simp: fail_inv_g_def start_translation_g_def reset_g_def split: if_splits)
next
  case (reachable_g_step w ev w')
  with rd show ?case using fail_inv_g_step by blast
qed

lemma run_g_reachable:
  "reachable_g rd fmt db a w \<Longrightarrow> run_g rd fmt db a evs w = Some w' \<Longrightarrow> reachable_g rd fmt db a w'"
proof (induction evs arbitrary: w)
  case Nil
  then show ?case by simp
next
  case (Cons ev evs)
  from Cons.prems(2) obtain w1 where w1: "step_g rd fmt db a ev w = Some w1"
    and rest: "run_g rd fmt db a evs w1 = Some w'"
    by (auto split: option.splits)
  from Cons.prems(1) w1 have "reachable_g rd fmt db a w1" by (rule reachable_g_step)
  then show ?case using rest by (rule Cons.IH)
qed

lemma run_paused_world:
  "run read_short db0 job0 [PauseRequest, WorkerStep env_ok, WorkerStep env_ok]
     (start_translation state0) = Some paused_world"
  by (simp add: worker_Start worker_LoopHead start_translation_def pause_translation_def
      reset_def state0_def read_short_def short_batch env_ok_def paused_world_def ascii_def)

lemma run_paused_world_g:
  "start_translation_g read_short args0 gstate0 \<noteq> None \<and>
   run_g read_short fmt0 db0 args0 [PauseToggle, WorkerStep_g env_ok, WorkerStep_g env_ok]
     (the (start_translation_g read_short args0 gstate0)) = Some paused_world_g"
  by (simp add: gworker_Start gworker_LoopHead start_translation_g_def pause_toggle_def
      reset_g_def gstate0_def read_short_def short_batch env_ok_def paused_world_g_def args0_def
      ascii_def py_strip_def)

section \<open>The pause loop and the lock\<close>

text \<open>
  C10. The claim says that the worker waits in the pause loop without holding the lock.
  In both front-ends the loop \<open>while paused: sleep\<close> stands inside the section under
  the lock. Here a pause request comes before the worker's first look at the flags: the
  worker then waits in the loop holding the lock, its step leaves the world as it is, and
  the pause request that would resume it, the status query and the stop request cannot
  be taken.
\<close>

theorem pause_wait_holds_lock:
  "run read_short db0 job0 [PauseRequest, WorkerStep env_ok, WorkerStep env_ok]
     (start_translation state0) = Some paused_world
   \<and> pc paused_world = PauseWait 0 \<and> lock_held paused_world \<and> paused (state paused_world)
   \<and> step read_short db0 job0 PauseRequest paused_world = None
   \<and> step read_short db0 job0 StatusRequest paused_world = None
   \<and> step read_short db0 job0 StopRequest paused_world = None
   \<and> step read_short db0 job0 (WorkerStep env_ok) paused_world = Some paused_world
   \<and> run_g read_short fmt0 db0 args0 [PauseToggle, WorkerStep_g env_ok, WorkerStep_g env_ok]
        (the (start_translation_g read_short args0 gstate0)) = Some paused_world_g
   \<and> g_pc paused_world_g = PauseWait 0 \<and> g_lock_held paused_world_g
   \<and> step_g read_short fmt0 db0 args0 PauseToggle paused_world_g = None
   \<and> step_g read_short fmt0 db0 args0 StatusQuery paused_world_g = None
   \<and> step_g read_short fmt0 db0 args0 (WorkerStep_g env_ok) paused_world_g = Some paused_world_g"
  using run_paused_world run_paused_world_g
  by (simp add: paused_world_def paused_world_g_def worker_PauseWait gworker_PauseWait)

text \<open>Once the worker waits in the pause loop, no step changes the world any more.\<close>

lemma pause_wait_is_stuck:
  assumes "reachable rd db j w" and "pc w = PauseWait i" and "step rd db j ev w = Some w'"
  shows "lock_held w \<and> w' = w"
proof -
  have "lock_held w \<and> paused (state w)"
  proof (cases "rd (filepath j)")
    case (Inl ex)
    then show ?thesis using reachable_fail_inv [OF assms(1)] assms(2) by (auto simp: fail_inv_def)
  next
    case (Inr T)
    from reachable_ctrl_inv [OF assms(1) this] assms(2)
    show ?thesis by (simp add: ctrl_inv_def Let_def)
  qed
  then have lock: "lock_held w" and p: "paused (state w)" by simp_all
  show ?thesis
  proof (cases ev)
    case (WorkerStep e)
    then show ?thesis using assms(2,3) lock p by (simp add: worker_PauseWait)
  qed (use assms(3) lock in simp_all)
qed

lemma pause_wait_is_stuck_g:
  assumes "reachable_g rd fmt db a w" and "g_pc w = PauseWait i" and "step_g rd fmt db a ev w = Some w'"
  shows "g_lock_held w \<and> w' = w"
proof -
  have "g_lock_held w \<and> g_paused (g_state w)"
  proof (cases "rd (input_file a)")
    case (Inl ex)
    then show ?thesis using reachable_fail_inv_g [OF assms(1)] assms(2) by (auto simp: fail_inv_g_def)
  next
    case (Inr T)
    from reachable_ctrl_inv_g [OF assms(1) this] assms(2)
    show ?thesis by (simp add: ctrl_inv_g_def Let_def)
  qed
  then have lock: "g_lock_held w" and p: "g_paused (g_state w)" by simp_all
  show ?thesis
  proof (cases ev)
    case (WorkerStep_g e)
    then show ?thesis using assms(2,3) lock p by (simp add: gworker_PauseWait)
  qed (use assms(3) lock in simp_all)
qed

section \<open>The pause toggle\<close>

text \<open>
  With no job active, one call of the pause toggle changes the state: the flag is set.
\<close>

theorem pause_without_job_counterexample:
  "\<not> running (reset state0) \<and> \<not> paused (reset state0)
   \<and> paused (fst (pause_translation (reset state0)))
   \<and> fst (pause_translation (reset state0)) \<noteq> reset state0
   \<and> \<not> g_running (reset_g gstate0)
   \<and> g_paused (fst (pause_toggle (reset_g gstate0)))
   \<and> fst (pause_toggle (reset_g gstate0)) \<noteq> reset_g gstate0"
proof -
  have a: "paused (fst (pause_translation (reset state0)))" "\<not> paused (reset state0)"
    by (simp_all add: pause_translation_def reset_def)
  then have "fst (pause_translation (reset state0)) \<noteq> reset state0" by metis
  moreover have b: "g_paused (fst (pause_toggle (reset_g gstate0)))" "\<not> g_paused (reset_g gstate0)"
    by (simp_all add: pause_toggle_def reset_g_def)
  then have "fst (pause_toggle (reset_g gstate0)) \<noteq> reset_g gstate0" by metis
  ultimately show ?thesis using a b by (simp add: reset_def reset_g_def)
qed

text \<open>
  C9, as amended. Two calls of the pause toggle in immediate succession leave the state
  as it was. One call flips the paused flag and changes nothing else, whether a job is
  running or not: the handlers do not look at the running flag. \<open>reset\<close>, which
  precedes the next job, clears the flag.
\<close>

theorem pause_toggle_flips:
  "fst (pause_translation (fst (pause_translation s))) = s
   \<and> fst (pause_translation s) = s\<lparr>paused := \<not> paused s\<rparr>
   \<and> snd (pause_translation s) = (\<not> paused s)
   \<and> run rd db j [PauseRequest, PauseRequest] w = (if lock_held w then None else Some w)
   \<and> \<not> paused (reset s)
   \<and> fst (pause_toggle (fst (pause_toggle g))) = g
   \<and> fst (pause_toggle g) = g\<lparr>g_paused := \<not> g_paused g\<rparr>
   \<and> run_g rd fmt db a [PauseToggle, PauseToggle] v = (if g_lock_held v then None else Some v)
   \<and> \<not> g_paused (reset_g g)"
  by (simp add: pause_translation_def pause_toggle_def reset_def reset_g_def Let_def)

theorem pause_toggle_flips_witness:
  "fst (pause_translation (fst (pause_translation state0))) = state0
   \<and> paused (fst (pause_translation (reset state0)))
   \<and> snd (pause_translation (reset state0))
   \<and> run read_short db0 job0 [PauseRequest, PauseRequest] (start_translation state0)
       = Some (start_translation state0)
   \<and> run read_short db0 job0 [PauseRequest, PauseRequest] paused_world = None
   \<and> fst (pause_toggle (fst (pause_toggle gstate0))) = gstate0
   \<and> g_paused (fst (pause_toggle (reset_g gstate0)))"
proof -
  note a = pause_toggle_flips [of state0 read_short db0 job0 "start_translation state0"
      gstate0 fmt0 args0 paused_world_g]
  note b = pause_toggle_flips [of "reset state0" read_short db0 job0 paused_world
      "reset_g gstate0" fmt0 args0 paused_world_g]
  have 1: "fst (pause_translation (fst (pause_translation state0))) = state0" using a by blast
  have np: "\<not> paused (reset state0)" using a by blast
  have "fst (pause_translation (reset state0)) = (reset state0)\<lparr>paused := \<not> paused (reset state0)\<rparr>"
    using b by blast
  then have 2: "paused (fst (pause_translation (reset state0)))" using np by simp
  have "snd (pause_translation (reset state0)) = (\<not> paused (reset state0))" using b by blast
  then have 3: "snd (pause_translation (reset state0))" using np by simp
  have "run read_short db0 job0 [PauseRequest, PauseRequest] (start_translation state0) =
      (if lock_held (start_translation state0) then None else Some (start_translation state0))"
    using a by blast
  then have 4: "run read_short db0 job0 [PauseRequest, PauseRequest] (start_translation state0)
       = Some (start_translation state0)" by (simp add: start_translation_def)
  have "run read_short db0 job0 [PauseRequest, PauseRequest] paused_world =
      (if lock_held paused_world then None else Some paused_world)"
    using b by blast
  then have 5: "run read_short db0 job0 [PauseRequest, PauseRequest] paused_world = None"
    by (simp add: paused_world_def)
  have 6: "fst (pause_toggle (fst (pause_toggle gstate0))) = gstate0" using a by blast
  have ng: "\<not> g_paused (reset_g gstate0)" using a by blast
  have "fst (pause_toggle (reset_g gstate0)) = (reset_g gstate0)\<lparr>g_paused := \<not> g_paused (reset_g gstate0)\<rparr>"
    using b by blast
  then have 7: "g_paused (fst (pause_toggle (reset_g gstate0)))" using ng by simp
  show ?thesis using 1 2 3 4 5 6 7 by blast
qed

lemma sanitize_ok: "sanitize_output db (Str (ascii ''ok'')) = Str (ascii ''ok'')"
  by (simp add: sanitize_output_def cleaned_text_def py_splitlines_def ascii_def linebreak_def
      thought_pattern_search_def match_here_def thought_alternatives_def letters_def
      ignorecase_eq_def py_lower_def arabic_def ascii_lower_def py_strip_def isspace_def
      boilerplate_def match_run_def Let_def)

lemma reply_ok: "reply_of db (Completed 0 (ascii ''ok'') []) = ascii ''ok''"
proof -
  have "py_strip (ascii ''ok'') = ascii ''ok''" by (simp add: py_strip_def ascii_def isspace_def)
  then show ?thesis by (simp add: reply_of_def translate_with_ollama_def sanitize_ok str_of_def)
qed

lemma hello_length: "length (ascii ''Hello'') = 5"
  by (simp add: ascii_def)



section \<open>Export\<close>







section \<open>Stop\<close>

lemma step_keeps_stopped:
  assumes "stopped (state w)" and "step rd db j ev w = Some w'"
  shows "stopped (state w')"
proof (cases ev)
  case (WorkerStep e)
  show ?thesis
  proof (cases "pc w")
    case Start
    then show ?thesis using assms WorkerStep
      by (auto simp: worker_Start split: sum.splits if_splits)
  next
    case (LoopHead i)
    then show ?thesis using assms WorkerStep by (auto simp: worker_LoopHead split: if_splits)
  next
    case (PauseWait i)
    then show ?thesis using assms WorkerStep by (auto simp: worker_PauseWait split: if_splits)
  next
    case (Chunk i)
    then show ?thesis using assms WorkerStep by (auto simp: worker_Chunk split: if_splits)
  next
    case (Call i)
    then show ?thesis using assms WorkerStep by (auto simp: worker_Call)
  next
    case (Store i t)
    then show ?thesis using assms WorkerStep by (auto simp: worker_Store split: if_splits)
  next
    case Finish
    then show ?thesis using assms WorkerStep by (auto simp: worker_Finish split: if_splits)
  next
    case (Handler ex)
    then show ?thesis using assms WorkerStep by (auto simp: worker_Handler split: if_splits)
  next
    case Done
    then show ?thesis using assms WorkerStep by (simp add: worker_Done)
  qed
next
  case PauseRequest
  then show ?thesis using assms by (auto simp: pause_translation_def Let_def split: if_splits)
next
  case StopRequest
  then show ?thesis using assms by (auto simp: stop_translation_def split: if_splits)
next
  case StatusRequest
  then show ?thesis using assms by (auto split: if_splits)
next
  case ExportRequest
  then show ?thesis using assms by (auto split: if_splits)
qed

text \<open>Once the worker has seen the stop flag, nothing is called, stored or written any more.\<close>

lemma step_after_stop:
  assumes "pc w = Finish \<or> pc w = Done" and "stopped (state w)" and "step rd db j ev w = Some w'"
  shows "(pc w' = Finish \<or> pc w' = Done) \<and> stopped (state w')
     \<and> backend_calls w' = backend_calls w
     \<and> translated_chunks (state w') = translated_chunks (state w)
     \<and> documents w' = documents w \<and> output_file (state w') = output_file (state w)"
proof (cases ev)
  case (WorkerStep e)
  from assms(1) show ?thesis
  proof
    assume "pc w = Finish"
    then show ?thesis using assms(2,3) WorkerStep by (auto simp: worker_Finish split: if_splits)
  next
    assume "pc w = Done"
    then show ?thesis using assms(3) WorkerStep by (simp add: worker_Done)
  qed
next
  case PauseRequest
  then show ?thesis using assms by (auto simp: pause_translation_def Let_def split: if_splits)
next
  case StopRequest
  then show ?thesis using assms by (auto simp: stop_translation_def split: if_splits)
next
  case StatusRequest
  then show ?thesis using assms by (auto split: if_splits)
next
  case ExportRequest
  then show ?thesis using assms by (auto split: if_splits)
qed

lemma run_after_stop:
  assumes "pc w = Finish \<or> pc w = Done" and "stopped (state w)" and "run rd db j evs w = Some w'"
  shows "(pc w' = Finish \<or> pc w' = Done) \<and> stopped (state w')
     \<and> backend_calls w' = backend_calls w
     \<and> translated_chunks (state w') = translated_chunks (state w)
     \<and> documents w' = documents w \<and> output_file (state w') = output_file (state w)"
  using assms
proof (induction evs arbitrary: w)
  case Nil
  then show ?case by simp
next
  case (Cons ev evs)
  from Cons.prems(3) obtain w1 where s1: "step rd db j ev w = Some w1"
    and r: "run rd db j evs w1 = Some w'"
    by (auto split: option.splits)
  from step_after_stop [OF Cons.prems(1,2) s1]
  have a: "pc w1 = Finish \<or> pc w1 = Done" "stopped (state w1)"
    and b: "backend_calls w1 = backend_calls w"
      "translated_chunks (state w1) = translated_chunks (state w)"
      "documents w1 = documents w" "output_file (state w1) = output_file (state w)"
    by simp_all
  from Cons.IH [OF a r] show ?case using b by simp
qed

text \<open>
  C8. The stop flag is a latch: no step of a job clears it, only \<open>reset\<close> does. A call
  of the backend in flight ends as it would without the flag, and its result is stored.
  The worker looks at the flag at the top of an iteration, under the lock; when it finds
  it set, it leaves the loop, and from then on no backend call is made, the results
  stay as they are, and no document is written.
\<close>

theorem stop_is_a_latch:
  "(stopped (state w) \<and> step rd db j ev w = Some w' \<longrightarrow> stopped (state w'))
   \<and> stopped (stop_translation s) \<and> \<not> stopped (reset s)
   \<and> (pc w = Call i \<longrightarrow>
        worker_thread rd db j e w =
          Some (w\<lparr>backend_calls := backend_calls w @
                    [(model (request j), prompt_of (take (batch_size w) (drop i (doc_text w))))],
                  backend_results := backend_results w @ [outcome e],
                  pc := Store i (reply_of db (outcome e))\<rparr>))
   \<and> (pc w = Store i t \<and> \<not> lock_held w \<longrightarrow>
        (\<exists>w1. worker_thread rd db j e w = Some w1 \<and> pc w1 = LoopHead (i + batch_size w)
           \<and> translated_chunks (state w1) = translated_chunks (state w) @ [t]))
   \<and> (reachable rd db j w \<and> pc w = LoopHead i \<and> i < length (doc_text w) \<and> stopped (state w) \<longrightarrow>
        (\<exists>w1. worker_thread rd db j e w = Some w1 \<and> pc w1 = Finish
           \<and> translated_chunks (state w1) = translated_chunks (state w)
           \<and> backend_calls w1 = backend_calls w
           \<and> (\<forall>evs w2. run rd db j evs w1 = Some w2 \<longrightarrow>
                 backend_calls w2 = backend_calls w
                 \<and> translated_chunks (state w2) = translated_chunks (state w)
                 \<and> documents w2 = [] \<and> output_file (state w2) = None)))"
proof -
  have 1: "stopped (state w) \<and> step rd db j ev w = Some w' \<longrightarrow> stopped (state w')"
    using step_keeps_stopped by blast
  have 2: "stopped (stop_translation s) \<and> \<not> stopped (reset s)"
    by (simp add: stop_translation_def reset_def)
  have 3: "pc w = Call i \<longrightarrow>
        worker_thread rd db j e w =
          Some (w\<lparr>backend_calls := backend_calls w @
                    [(model (request j), prompt_of (take (batch_size w) (drop i (doc_text w))))],
                  backend_results := backend_results w @ [outcome e],
                  pc := Store i (reply_of db (outcome e))\<rparr>)"
    by (simp add: worker_Call translate_reply translate_calls)
  have 4: "pc w = Store i t \<and> \<not> lock_held w \<longrightarrow>
        (\<exists>w1. worker_thread rd db j e w = Some w1 \<and> pc w1 = LoopHead (i + batch_size w)
           \<and> translated_chunks (state w1) = translated_chunks (state w) @ [t])"
    by (simp add: worker_Store)
  have 5: "\<exists>w1. worker_thread rd db j e w = Some w1 \<and> pc w1 = Finish
           \<and> translated_chunks (state w1) = translated_chunks (state w)
           \<and> backend_calls w1 = backend_calls w
           \<and> (\<forall>evs w2. run rd db j evs w1 = Some w2 \<longrightarrow>
                 backend_calls w2 = backend_calls w
                 \<and> translated_chunks (state w2) = translated_chunks (state w)
                 \<and> documents w2 = [] \<and> output_file (state w2) = None)"
    if reach: "reachable rd db j w" and pc: "pc w = LoopHead i"
      and less: "i < length (doc_text w)" and stop: "stopped (state w)"
  proof -
    have "\<not> lock_held w \<and> documents w = [] \<and> output_file (state w) = None"
    proof (cases "rd (filepath j)")
      case (Inl ex)
      then show ?thesis using reachable_fail_inv [OF reach] by (simp add: fail_inv_def)
    next
      case (Inr T)
      then show ?thesis using reachable_ctrl_inv [OF reach] pc by (simp add: ctrl_inv_def Let_def)
    qed
    then have lock: "\<not> lock_held w" and docs: "documents w = []" and out: "output_file (state w) = None"
      by simp_all
    define w1 where "w1 = w\<lparr>state := (state w)\<lparr>status_message := ascii ''Translation stopped.''\<rparr>,
                            pc := Finish\<rparr>"
    have st: "worker_thread rd db j e w = Some w1"
      using pc less lock stop by (simp add: worker_LoopHead w1_def)
    have f: "pc w1 = Finish \<or> pc w1 = Done" "stopped (state w1)" using stop by (simp_all add: w1_def)
    have same: "translated_chunks (state w1) = translated_chunks (state w)"
      "backend_calls w1 = backend_calls w" "documents w1 = []" "output_file (state w1) = None"
      using docs out by (simp_all add: w1_def)
    have "backend_calls w2 = backend_calls w
          \<and> translated_chunks (state w2) = translated_chunks (state w)
          \<and> documents w2 = [] \<and> output_file (state w2) = None"
      if "run rd db j evs w1 = Some w2" for evs w2
      using run_after_stop [OF f that] same by simp
    then show ?thesis using st same by (simp add: w1_def)
  qed
  show ?thesis using 1 2 3 4 5 by blast
qed

lemma long_batch: "calculate_optimal_batch_size read_long p = 3000"
  by (simp add: calculate_optimal_batch_size_def read_long_def)

lemma run_stop_in_flight:
  "\<exists>w. run read_long db0 job0
          [WorkerStep env_ok, WorkerStep env_ok, WorkerStep env_ok, StopRequest,
           WorkerStep env_ok, WorkerStep env_ok] (start_translation state0) = Some w
     \<and> pc w = LoopHead 3000 \<and> stopped (state w) \<and> translated_chunks (state w) = [ascii ''ok'']
     \<and> doc_text w = replicate 100000 65 \<and> length (backend_calls w) = 1"
  by (simp add: worker_Start worker_LoopHead worker_Chunk worker_Call worker_Store
      start_translation_def stop_translation_def reset_def state0_def read_long_def long_batch
      translate_reply translate_calls env_ok_def reply_ok Let_def)

theorem stop_is_a_latch_witness:
  "\<exists>w. run read_long db0 job0
          [WorkerStep env_ok, WorkerStep env_ok, WorkerStep env_ok, StopRequest,
           WorkerStep env_ok, WorkerStep env_ok] (start_translation state0) = Some w
     \<and> pc w = LoopHead 3000 \<and> stopped (state w) \<and> translated_chunks (state w) = [ascii ''ok'']
     \<and> (\<exists>w1. worker_thread read_long db0 job0 env_ok w = Some w1 \<and> pc w1 = Finish
            \<and> translated_chunks (state w1) = [ascii ''ok''] \<and> length (backend_calls w1) = 1
            \<and> documents w1 = [] \<and> output_file (state w1) = None)"
proof -
  obtain w where run: "run read_long db0 job0
          [WorkerStep env_ok, WorkerStep env_ok, WorkerStep env_ok, StopRequest,
           WorkerStep env_ok, WorkerStep env_ok] (start_translation state0) = Some w"
    and pc: "pc w = LoopHead 3000" and stop: "stopped (state w)"
    and tc: "translated_chunks (state w) = [ascii ''ok'']"
    and doc: "doc_text w = replicate 100000 65" and calls: "length (backend_calls w) = 1"
    using run_stop_in_flight by blast
  have reach: "reachable read_long db0 job0 w" using reachable_start run by (rule run_reachable)
  have "reachable read_long db0 job0 w \<and> pc w = LoopHead 3000 \<and> 3000 < length (doc_text w)
        \<and> stopped (state w)"
    using reach pc stop doc by simp
  with stop_is_a_latch [where rd = read_long and db = db0 and j = job0 and w = w and i = 3000
      and e = env_ok]
  obtain w1 where st: "worker_thread read_long db0 job0 env_ok w = Some w1" and f: "pc w1 = Finish"
    and same: "translated_chunks (state w1) = translated_chunks (state w)"
      "backend_calls w1 = backend_calls w"
    and later: "\<forall>evs w2. run read_long db0 job0 evs w1 = Some w2 \<longrightarrow>
                 backend_calls w2 = backend_calls w
                 \<and> translated_chunks (state w2) = translated_chunks (state w)
                 \<and> documents w2 = [] \<and> output_file (state w2) = None"
    by blast
  have "run read_long db0 job0 [] w1 = Some w1" by simp
  with later have "documents w1 = [] \<and> output_file (state w1) = None" by blast
  then show ?thesis using run pc stop tc st f same calls by auto
qed






section \<open>Chunks in source order\<close>







section \<open>Backend failures\<close>

lemma web_call_continues:
  assumes reach: "reachable rd db j w" and pc: "pc w = Call i"
  shows "\<exists>w1 w2. worker_thread rd db j e w = Some w1
           \<and> pc w1 = Store i (reply_of db (outcome e))
           \<and> backend_calls w1 = backend_calls w @
                [(model (request j), prompt_of (take (batch_size w) (drop i (doc_text w))))]
           \<and> worker_thread rd db j e' w1 = Some w2 \<and> pc w2 = LoopHead (i + batch_size w)
           \<and> translated_chunks (state w2) = translated_chunks (state w) @ [reply_of db (outcome e)]
           \<and> error (state w2) = None"
proof -
  have "\<not> lock_held w \<and> error (state w) = None"
  proof (cases "rd (filepath j)")
    case (Inl ex)
    then show ?thesis using reachable_fail_inv [OF reach] pc by (simp add: fail_inv_def)
  next
    case (Inr T)
    then show ?thesis using reachable_ctrl_inv [OF reach] pc by (simp add: ctrl_inv_def Let_def)
  qed
  then show ?thesis using pc
    by (simp add: worker_Call worker_Store translate_reply translate_calls)
qed

lemma desktop_call_continues:
  assumes reach: "reachable_g rd fmt db a v" and pc: "g_pc v = Call i"
    and p: "build_prompt fmt (g_prompt_template (g_state v)) (g_prompt_mode (g_state v))
              (g_concise_mode (g_state v)) (take (g_batch_size v) (drop i (g_doc_text v))) = Inr p"
  shows "\<exists>v1 v2. translation_worker rd fmt db a e v = Some v1
           \<and> g_pc v1 = Store i (interpret_result db (g_filter_thoughts (g_state v)) (outcome e))
           \<and> g_backend_calls v1 = g_backend_calls v @
                [(chosen_model a, \<not> g_think_enabled (g_state v), p)]
           \<and> translation_worker rd fmt db a e' v1 = Some v2
           \<and> g_pc v2 = LoopHead (i + g_batch_size v)
           \<and> g_translated_chunks (g_state v2) = g_translated_chunks (g_state v)
                @ [interpret_result db (g_filter_thoughts (g_state v)) (outcome e)]"
proof -
  have "\<not> g_lock_held v"
  proof (cases "rd (input_file a)")
    case (Inl ex)
    then show ?thesis using reachable_fail_inv_g [OF reach] pc by (simp add: fail_inv_g_def)
  next
    case (Inr T)
    then show ?thesis using reachable_ctrl_inv_g [OF reach] pc by (simp add: ctrl_inv_g_def Let_def)
  qed
  then show ?thesis using pc p by (simp add: gworker_Call gworker_Store)
qed

text \<open>
  C3. The backend client makes one invocation per call, whatever the backend does, and
  returns a failure (a timeout, an exception of the launch, a return code other than
  zero) as a text. In the worker the step of the call ends in the place that stores this
  text as the chunk's result, and the step after it is the top of the loop for the next
  chunk; no error is recorded. A job of the web application that nobody pauses or stops
  ends with one result for every chunk and an output file, whatever the backend did on
  any chunk.
\<close>

theorem backend_failure_is_chunk_result:
  "snd (translate_with_ollama db res chunk mdl calls) = calls @ [(mdl, prompt_of chunk)]
   \<and> fst (translate_with_ollama db (TimedOut ex) chunk mdl calls) = ascii ''[Error: '' @ ex @ ascii '']''
   \<and> fst (translate_with_ollama db (Raised ex) chunk mdl calls) = ascii ''[Error: '' @ ex @ ascii '']''
   \<and> (rc \<noteq> 0 \<longrightarrow> fst (translate_with_ollama db (Completed rc out err) chunk mdl calls)
          = ascii ''[Error: '' @ (if err \<noteq> [] then err else ascii ''Unknown error'') @ ascii '']'')
   \<and> (reachable rd db j w \<and> pc w = Call i \<longrightarrow>
        (\<exists>w1 w2. worker_thread rd db j e w = Some w1
           \<and> pc w1 = Store i (reply_of db (outcome e))
           \<and> backend_calls w1 = backend_calls w @
                [(model (request j), prompt_of (take (batch_size w) (drop i (doc_text w))))]
           \<and> worker_thread rd db j e' w1 = Some w2 \<and> pc w2 = LoopHead (i + batch_size w)
           \<and> translated_chunks (state w2) = translated_chunks (state w) @ [reply_of db (outcome e)]
           \<and> error (state w2) = None))
   \<and> (\<forall>T. rd (filepath j) = Inr T
          \<and> length es = (length T + calculate_optimal_batch_size rd (filepath j) - 1)
                div calculate_optimal_batch_size rd (filepath j)
          \<and> write_docx_raises e1 = None \<longrightarrow>
        (\<exists>w. run rd db j (job_events e0 es e1) (start_translation s0) = Some w
           \<and> pc w = Done
           \<and> translated_chunks (state w) = map (\<lambda>e. reply_of db (outcome e)) es
           \<and> error (state w) = None
           \<and> output_file (state w) = Some (ascii ''translated_'' @ stamp e1 @ ascii ''.docx'')))
   \<and> (\<forall>p. build_prompt fmt (g_prompt_template g) (g_prompt_mode g) (g_concise_mode g) chunk = Inr p \<longrightarrow>
        translate_with_ollama_g fmt db g res chunk mdl gcalls =
          Inr (interpret_result db (g_filter_thoughts g) res,
               gcalls @ [(mdl, \<not> g_think_enabled g, p)]))
   \<and> interpret_result db filt (TimedOut ex)
        = [9888, 65039] @ ascii '' Translation timeout (5 minutes exceeded)''
   \<and> interpret_result db filt (Raised ex) = [10060] @ ascii '' Exception: '' @ ex
   \<and> (rc \<noteq> 0 \<longrightarrow> interpret_result db filt (Completed rc out err)
          = [10060] @ ascii '' Error: ''
            @ (if err \<noteq> [] then py_strip err else if out \<noteq> [] then py_strip out
               else ascii ''unknown error''))
   \<and> (\<forall>p. reachable_g rd' fmt db a v \<and> g_pc v = Call i
          \<and> build_prompt fmt (g_prompt_template (g_state v)) (g_prompt_mode (g_state v))
              (g_concise_mode (g_state v)) (take (g_batch_size v) (drop i (g_doc_text v))) = Inr p \<longrightarrow>
        (\<exists>v1 v2. translation_worker rd' fmt db a e v = Some v1
           \<and> g_pc v1 = Store i (interpret_result db (g_filter_thoughts (g_state v)) (outcome e))
           \<and> g_backend_calls v1 = g_backend_calls v @
                [(chosen_model a, \<not> g_think_enabled (g_state v), p)]
           \<and> translation_worker rd' fmt db a e' v1 = Some v2
           \<and> g_pc v2 = LoopHead (i + g_batch_size v)
           \<and> g_translated_chunks (g_state v2) = g_translated_chunks (g_state v)
                @ [interpret_result db (g_filter_thoughts (g_state v)) (outcome e)]))"
proof -
  have 1: "snd (translate_with_ollama db res chunk mdl calls) = calls @ [(mdl, prompt_of chunk)]"
    by (rule translate_calls)
  have 2: "fst (translate_with_ollama db (TimedOut ex) chunk mdl calls) = ascii ''[Error: '' @ ex @ ascii '']''"
    and 3: "fst (translate_with_ollama db (Raised ex) chunk mdl calls) = ascii ''[Error: '' @ ex @ ascii '']''"
    by (simp_all add: translate_with_ollama_def Let_def)
  have 4: "rc \<noteq> 0 \<longrightarrow> fst (translate_with_ollama db (Completed rc out err) chunk mdl calls)
          = ascii ''[Error: '' @ (if err \<noteq> [] then err else ascii ''Unknown error'') @ ascii '']''"
    by (simp add: translate_with_ollama_def Let_def)
  have 5: "reachable rd db j w \<and> pc w = Call i \<longrightarrow>
        (\<exists>w1 w2. worker_thread rd db j e w = Some w1
           \<and> pc w1 = Store i (reply_of db (outcome e))
           \<and> backend_calls w1 = backend_calls w @
                [(model (request j), prompt_of (take (batch_size w) (drop i (doc_text w))))]
           \<and> worker_thread rd db j e' w1 = Some w2 \<and> pc w2 = LoopHead (i + batch_size w)
           \<and> translated_chunks (state w2) = translated_chunks (state w) @ [reply_of db (outcome e)]
           \<and> error (state w2) = None)"
    using web_call_continues [of rd db j w i e e'] by blast
  have 6: "\<forall>T. rd (filepath j) = Inr T
          \<and> length es = (length T + calculate_optimal_batch_size rd (filepath j) - 1)
                div calculate_optimal_batch_size rd (filepath j)
          \<and> write_docx_raises e1 = None \<longrightarrow>
        (\<exists>w. run rd db j (job_events e0 es e1) (start_translation s0) = Some w
           \<and> pc w = Done
           \<and> translated_chunks (state w) = map (\<lambda>e. reply_of db (outcome e)) es
           \<and> error (state w) = None
           \<and> output_file (state w) = Some (ascii ''translated_'' @ stamp e1 @ ascii ''.docx''))"
  proof (intro allI impI)
    fix T
    assume a: "rd (filepath j) = Inr T
          \<and> length es = (length T + calculate_optimal_batch_size rd (filepath j) - 1)
                div calculate_optimal_batch_size rd (filepath j)
          \<and> write_docx_raises e1 = None"
    from a have a1: "rd (filepath j) = Inr T"
      and a2: "length es = (length T + calculate_optimal_batch_size rd (filepath j) - 1)
                div calculate_optimal_batch_size rd (filepath j)"
      and a3: "write_docx_raises e1 = None" by simp_all
    from run_job [where rd = rd and j = j and T = T and es = es and ?e1.0 = e1 and db = db
        and ?e0.0 = e0 and ?s0.0 = s0, OF a1 a2 a3]
    obtain w where "run rd db j (job_events e0 es e1) (start_translation s0) = Some w"
      and "pc w = Done"
      and "translated_chunks (state w) = map (\<lambda>e. reply_of db (outcome e)) es"
      and "error (state w) = None"
      and "output_file (state w) = Some (ascii ''translated_'' @ stamp e1 @ ascii ''.docx'')"
      by blast
    then show "\<exists>w. run rd db j (job_events e0 es e1) (start_translation s0) = Some w
           \<and> pc w = Done
           \<and> translated_chunks (state w) = map (\<lambda>e. reply_of db (outcome e)) es
           \<and> error (state w) = None
           \<and> output_file (state w) = Some (ascii ''translated_'' @ stamp e1 @ ascii ''.docx'')"
      by blast
  qed
  have 7: "\<forall>p. build_prompt fmt (g_prompt_template g) (g_prompt_mode g) (g_concise_mode g) chunk = Inr p \<longrightarrow>
        translate_with_ollama_g fmt db g res chunk mdl gcalls =
          Inr (interpret_result db (g_filter_thoughts g) res,
               gcalls @ [(mdl, \<not> g_think_enabled g, p)])"
    by (simp add: translate_with_ollama_g_def)
  have 8: "interpret_result db filt (TimedOut ex)
        = [9888, 65039] @ ascii '' Translation timeout (5 minutes exceeded)''"
    and 9: "interpret_result db filt (Raised ex) = [10060] @ ascii '' Exception: '' @ ex"
    by (simp_all add: interpret_result_def)
  have 10: "rc \<noteq> 0 \<longrightarrow> interpret_result db filt (Completed rc out err)
          = [10060] @ ascii '' Error: ''
            @ (if err \<noteq> [] then py_strip err else if out \<noteq> [] then py_strip out
               else ascii ''unknown error'')"
    by (simp add: interpret_result_def Let_def)
  have 11: "\<forall>p. reachable_g rd' fmt db a v \<and> g_pc v = Call i
          \<and> build_prompt fmt (g_prompt_template (g_state v)) (g_prompt_mode (g_state v))
              (g_concise_mode (g_state v)) (take (g_batch_size v) (drop i (g_doc_text v))) = Inr p \<longrightarrow>
        (\<exists>v1 v2. translation_worker rd' fmt db a e v = Some v1
           \<and> g_pc v1 = Store i (interpret_result db (g_filter_thoughts (g_state v)) (outcome e))
           \<and> g_backend_calls v1 = g_backend_calls v @
                [(chosen_model a, \<not> g_think_enabled (g_state v), p)]
           \<and> translation_worker rd' fmt db a e' v1 = Some v2
           \<and> g_pc v2 = LoopHead (i + g_batch_size v)
           \<and> g_translated_chunks (g_state v2) = g_translated_chunks (g_state v)
                @ [interpret_result db (g_filter_thoughts (g_state v)) (outcome e)])"
    using desktop_call_continues [of rd' fmt db a v i _ e e'] by blast
  show ?thesis using 1 2 3 4 5 6 7 8 9 10 11 by blast
qed


lemma run_to_call:
  "\<exists>w. run read_short db0 job0 [WorkerStep env_ok, WorkerStep env_ok, WorkerStep env_ok]
          (start_translation state0) = Some w
     \<and> pc w = Call 0 \<and> batch_size w = 1000 \<and> translated_chunks (state w) = []"
  by (simp add: worker_Start worker_LoopHead worker_Chunk start_translation_def
      reset_def state0_def read_short_def short_batch Let_def hello_length)

lemma run_g_to_call:
  "\<exists>v0 v. start_translation_g read_short args0 gstate0 = Some v0
     \<and> run_g read_short fmt0 db0 args0 [WorkerStep_g env_ok, WorkerStep_g env_ok] v0 = Some v
     \<and> g_pc v = Call 0 \<and> g_batch_size v = 1000 \<and> g_translated_chunks (g_state v) = []
     \<and> g_doc_text v = ascii ''Hello'' \<and> g_prompt_template (g_state v) = None
     \<and> \<not> g_concise_mode (g_state v)"
  by (simp add: gworker_Start gworker_LoopHead start_translation_g_def
      reset_g_def gstate0_def args0_def read_short_def short_batch py_strip_def ascii_def)

lemma reply_timeout:
  "reply_of db (outcome env_timeout) = ascii ''[Error: Command timed out after 300 seconds]''"
  by (simp add: reply_of_def translate_with_ollama_def env_timeout_def Let_def ascii_def)

theorem backend_failure_is_chunk_result_witness:
  "\<exists>w v0 v.
     run read_short db0 job0 [WorkerStep env_ok, WorkerStep env_ok, WorkerStep env_ok]
          (start_translation state0) = Some w
     \<and> pc w = Call 0
     \<and> (\<exists>w1 w2. worker_thread read_short db0 job0 env_timeout w = Some w1
           \<and> pc w1 = Store 0 (ascii ''[Error: Command timed out after 300 seconds]'')
           \<and> worker_thread read_short db0 job0 env_ok w1 = Some w2 \<and> pc w2 = LoopHead 1000
           \<and> translated_chunks (state w2) = [ascii ''[Error: Command timed out after 300 seconds]'']
           \<and> error (state w2) = None)
     \<and> (\<exists>w3. run read_short db0 job0 (job_events env_ok [env_timeout] env_ok)
                 (start_translation state0) = Some w3
           \<and> pc w3 = Done
           \<and> translated_chunks (state w3) = [ascii ''[Error: Command timed out after 300 seconds]'']
           \<and> error (state w3) = None)
     \<and> fst (translate_with_ollama db0 (Completed 1 [] (ascii ''no such model'')) (ascii ''Hello'') None [])
         = ascii ''[Error: '' @ ascii ''no such model'' @ ascii '']''
     \<and> start_translation_g read_short args0 gstate0 = Some v0
     \<and> run_g read_short fmt0 db0 args0 [WorkerStep_g env_ok, WorkerStep_g env_ok] v0 = Some v
     \<and> g_pc v = Call 0
     \<and> (\<exists>v1 v2. translation_worker read_short fmt0 db0 args0 env_timeout v = Some v1
           \<and> translation_worker read_short fmt0 db0 args0 env_ok v1 = Some v2
           \<and> g_pc v2 = LoopHead 1000
           \<and> g_translated_chunks (g_state v2) =
               [[9888, 65039] @ ascii '' Translation timeout (5 minutes exceeded)''])"
proof -
  let ?t = "ascii ''[Error: Command timed out after 300 seconds]''"
  obtain w where run: "run read_short db0 job0 [WorkerStep env_ok, WorkerStep env_ok, WorkerStep env_ok]
          (start_translation state0) = Some w"
    and pc: "pc w = Call 0" and b: "batch_size w = 1000" and tc: "translated_chunks (state w) = []"
    using run_to_call by blast
  obtain v0 v where v0: "start_translation_g read_short args0 gstate0 = Some v0"
    and grun: "run_g read_short fmt0 db0 args0 [WorkerStep_g env_ok, WorkerStep_g env_ok] v0 = Some v"
    and gpc: "g_pc v = Call 0" and gb: "g_batch_size v = 1000"
    and gtc: "g_translated_chunks (g_state v) = []"
    and gt: "g_prompt_template (g_state v) = None" and gc: "\<not> g_concise_mode (g_state v)"
    using run_g_to_call by blast
  have reach: "reachable read_short db0 job0 w" using reachable_start run by (rule run_reachable)
  have "reachable_g read_short fmt0 db0 args0 v0" using v0 by (rule reachable_g_start)
  then have greach: "reachable_g read_short fmt0 db0 args0 v" using grun by (rule run_g_reachable)
  have rd: "read_short (filepath job0) = Inr (ascii ''Hello'')" by (simp add: read_short_def)
  define p where "p = DEFAULT_PROMPT @ take (g_batch_size v) (drop 0 (g_doc_text v)) @ [10, 10]
      @ ascii ''Arabic Translation:''"
  have bp: "build_prompt fmt0 (g_prompt_template (g_state v)) (g_prompt_mode (g_state v))
              (g_concise_mode (g_state v)) (take (g_batch_size v) (drop 0 (g_doc_text v))) = Inr p"
    using gt gc by (simp add: build_prompt_def p_def)
  note th = backend_failure_is_chunk_result [where db = db0 and rd = read_short and j = job0
      and w = w and i = 0 and e = env_timeout and e' = env_ok and es = "[env_timeout]"
      and ?e0.0 = env_ok and ?e1.0 = env_ok and ?s0.0 = state0 and rc = 1 and out = "[]"
      and err = "ascii ''no such model''" and chunk = "ascii ''Hello''" and mdl = None
      and calls = "[]" and rd' = read_short and fmt = fmt0 and a = args0 and v = v]
  from th reach pc
  have "\<exists>w1 w2. worker_thread read_short db0 job0 env_timeout w = Some w1
           \<and> pc w1 = Store 0 (reply_of db0 (outcome env_timeout))
           \<and> worker_thread read_short db0 job0 env_ok w1 = Some w2 \<and> pc w2 = LoopHead (0 + batch_size w)
           \<and> translated_chunks (state w2) = translated_chunks (state w) @ [reply_of db0 (outcome env_timeout)]
           \<and> error (state w2) = None"
    by blast
  then have 1: "\<exists>w1 w2. worker_thread read_short db0 job0 env_timeout w = Some w1
           \<and> pc w1 = Store 0 ?t
           \<and> worker_thread read_short db0 job0 env_ok w1 = Some w2 \<and> pc w2 = LoopHead 1000
           \<and> translated_chunks (state w2) = [?t] \<and> error (state w2) = None"
    using b tc by (simp add: reply_timeout)
  have len: "length [env_timeout] = (length (ascii ''Hello'')
                + calculate_optimal_batch_size read_short (filepath job0) - 1)
                div calculate_optimal_batch_size read_short (filepath job0)"
    by (simp add: short_batch hello_length)
  have wr: "write_docx_raises env_ok = None" by (simp add: env_ok_def)
  from th rd len wr
  have "\<exists>w3. run read_short db0 job0 (job_events env_ok [env_timeout] env_ok)
                 (start_translation state0) = Some w3
           \<and> pc w3 = Done
           \<and> translated_chunks (state w3) = map (\<lambda>e. reply_of db0 (outcome e)) [env_timeout]
           \<and> error (state w3) = None"
    by blast
  then have 2: "\<exists>w3. run read_short db0 job0 (job_events env_ok [env_timeout] env_ok)
                 (start_translation state0) = Some w3
           \<and> pc w3 = Done \<and> translated_chunks (state w3) = [?t] \<and> error (state w3) = None"
    by (simp add: reply_timeout)
  have "(1::int) \<noteq> 0" by simp
  with th have "fst (translate_with_ollama db0 (Completed 1 [] (ascii ''no such model'')) (ascii ''Hello'') None [])
         = ascii ''[Error: '' @ (if ascii ''no such model'' \<noteq> [] then ascii ''no such model''
              else ascii ''Unknown error'') @ ascii '']''"
    by blast
  then have 3: "fst (translate_with_ollama db0 (Completed 1 [] (ascii ''no such model'')) (ascii ''Hello'') None [])
         = ascii ''[Error: '' @ ascii ''no such model'' @ ascii '']''"
    by (simp add: ascii_def)
  from th greach gpc bp
  have "\<exists>v1 v2. translation_worker read_short fmt0 db0 args0 env_timeout v = Some v1
           \<and> translation_worker read_short fmt0 db0 args0 env_ok v1 = Some v2
           \<and> g_pc v2 = LoopHead (0 + g_batch_size v)
           \<and> g_translated_chunks (g_state v2) = g_translated_chunks (g_state v)
                @ [interpret_result db0 (g_filter_thoughts (g_state v)) (outcome env_timeout)]"
    by blast
  then have 4: "\<exists>v1 v2. translation_worker read_short fmt0 db0 args0 env_timeout v = Some v1
           \<and> translation_worker read_short fmt0 db0 args0 env_ok v1 = Some v2
           \<and> g_pc v2 = LoopHead 1000
           \<and> g_translated_chunks (g_state v2) =
               [[9888, 65039] @ ascii '' Translation timeout (5 minutes exceeded)'']"
    using gb gtc by (simp add: interpret_result_def env_timeout_def)
  show ?thesis using run pc 1 2 3 v0 grun gpc 4 by blast
qed

section \<open>The patterns of the sanitizer\<close>

lemma last_cp_append: "last_cp prev (a @ b) = last_cp (last_cp prev a) b"
  by (simp add: last_cp_def)







lemma arabic_not_space: "arabic c \<Longrightarrow> \<not> isspace c"
  by (auto simp: arabic_def isspace_def)

lemma py_strip_id:
  assumes "s \<noteq> []" "\<not> isspace (hd s)" "\<not> isspace (last s)"
  shows "py_strip s = s"
proof -
  have a: "dropWhile isspace s = s" using assms(2) by (simp add: dropWhile_eq_self_iff)
  have "hd (rev s) = last s" using assms(1) by (simp add: hd_rev)
  then have "dropWhile isspace (rev s) = rev s"
    using assms(3) by (simp add: dropWhile_eq_self_iff)
  with a show ?thesis by (simp add: py_strip_def)
qed

lemma py_strip_arabic_ends: "arabic_ends r \<Longrightarrow> py_strip r = r"
  by (simp add: arabic_ends_def py_strip_id arabic_not_space)

lemma py_strip_Nil: "py_strip [] = []"
  by (simp add: py_strip_def)

lemma py_strip_parts:
  "\<exists>pre post. s = pre @ py_strip s @ post \<and> list_all isspace pre \<and> list_all isspace post"
proof -
  let ?d = "dropWhile isspace s"
  have "?d = rev (dropWhile isspace (rev ?d)) @ rev (takeWhile isspace (rev ?d))"
    by (metis rev_append rev_rev_ident takeWhile_dropWhile_id)
  then have d: "?d = py_strip s @ rev (takeWhile isspace (rev ?d))"
    by (simp add: py_strip_def)
  have "s = takeWhile isspace s @ ?d" by simp
  with d have "s = takeWhile isspace s @ py_strip s @ rev (takeWhile isspace (rev ?d))"
    by simp
  moreover have "list_all isspace (takeWhile isspace s)"
    by (simp add: list_all_iff) (meson set_takeWhileD)
  moreover have "list_all isspace (rev (takeWhile isspace (rev ?d)))"
    by (simp add: list_all_iff) (meson set_takeWhileD)
  ultimately show ?thesis by blast
qed

lemma takeWhile_last:
  assumes "takeWhile P s \<noteq> []"
  shows "P (last (takeWhile P s))" and "P (hd (takeWhile P s))"
proof -
  from assms have "last (takeWhile P s) \<in> set (takeWhile P s)" by simp
  then show "P (last (takeWhile P s))" by (meson set_takeWhileD)
  from assms have "hd (takeWhile P s) \<in> set (takeWhile P s)" by simp
  then show "P (hd (takeWhile P s))" by (meson set_takeWhileD)
qed

lemma group_star_last:
  "fst (group_star s) = [] \<or> arabic (last (fst (group_star s)))"
proof (induction s rule: group_star.induct)
  case (1 s)
  let ?n = "takeWhile (\<lambda>c. \<not> arabic c) s"
  let ?r1 = "dropWhile (\<lambda>c. \<not> arabic c) s"
  let ?a = "takeWhile arabic ?r1"
  let ?r2 = "dropWhile arabic ?r1"
  show ?case
  proof (cases "?n = [] \<or> ?a = []")
    case True
    then have "fst (group_star s) = []" by (subst group_star.simps) (simp add: Let_def)
    then show ?thesis by simp
  next
    case False
    have ih: "fst (group_star ?r2) = [] \<or> arabic (last (fst (group_star ?r2)))"
      using "1.IH" [OF refl refl refl refl False] .
    have eq: "fst (group_star s) = ?n @ ?a @ fst (group_star ?r2)"
      using False by (subst group_star.simps) (simp add: Let_def split_beta)
    from False have ane: "?a \<noteq> []" by simp
    then have la: "arabic (last ?a)" by (rule takeWhile_last)
    show ?thesis
    proof (cases "fst (group_star ?r2) = []")
      case True
      with eq ane la show ?thesis by simp
    next
      case False
      with ih eq show ?thesis by simp
    qed
  qed
qed

lemma match_run_arabic_ends:
  assumes "match_run s = Some (m, rest)"
  shows "arabic_ends m"
proof -
  let ?a = "takeWhile arabic s"
  let ?g = "fst (group_star (dropWhile arabic s))"
  from assms have ne: "?a \<noteq> []" and m: "m = ?a @ ?g"
    by (auto simp: match_run_def Let_def split: if_splits prod.splits)
  from ne have h: "arabic (hd ?a)" and l: "arabic (last ?a)" by (rule takeWhile_last)+
  have "arabic (last m)"
  proof (cases "?g = []")
    case True
    with m l show ?thesis by simp
  next
    case False
    with group_star_last [of "dropWhile arabic s"] m show ?thesis by simp
  qed
  moreover have "hd m = hd ?a" using m ne by simp
  ultimately show ?thesis using ne m h by (simp add: arabic_ends_def)
qed

lemma findall_runs_arabic_ends: "r \<in> set (findall_runs s) \<Longrightarrow> arabic_ends r"
proof (induction s rule: findall_runs.induct)
  case 1
  then show ?case by simp
next
  case (2 c cs)
  show ?case
  proof (cases "match_run (c # cs)")
    case None
    with 2 show ?thesis by simp
  next
    case (Some p)
    obtain m rest where p: "p = (m, rest)" by (cases p)
    from Some p have mr: "match_run (c # cs) = Some (m, rest)" by simp
    from "2.prems" mr have "r = m \<or> r \<in> set (findall_runs rest)" by simp
    then show ?thesis
    proof
      assume "r = m"
      with mr show ?thesis by (simp add: match_run_arabic_ends)
    next
      assume "r \<in> set (findall_runs rest)"
      then show ?thesis using "2.IH"(2) [OF Some p [symmetric]] by simp
    qed
  qed
qed

lemma py_join_arabic_ends:
  "rs \<noteq> [] \<Longrightarrow> (\<And>r. r \<in> set rs \<Longrightarrow> arabic_ends r) \<Longrightarrow> arabic_ends (py_join [10] rs)"
proof (induction rs rule: induct_list012)
  case 1
  then show ?case by simp
next
  case (2 x)
  then show ?case by simp
next
  case (3 x y ys)
  have j: "arabic_ends (py_join [10] (y # ys))" using 3 by simp
  have x: "arabic_ends x" using "3.prems"(2) by simp
  from j x show ?case by (simp add: arabic_ends_def)
qed

lemma strip_runs:
  assumes "findall_runs s \<noteq> []"
  shows "py_strip (py_join [10] (map py_strip (findall_runs s))) = py_join [10] (findall_runs s)"
proof -
  have "map py_strip (findall_runs s) = findall_runs s"
    by (rule map_idI) (simp add: findall_runs_arabic_ends py_strip_arabic_ends)
  moreover have "arabic_ends (py_join [10] (findall_runs s))"
    using assms by (rule py_join_arabic_ends) (rule findall_runs_arabic_ends)
  ultimately show ?thesis by (simp add: py_strip_arabic_ends)
qed

lemma cleaned_text_Nil: "cleaned_text db [] = []"
  by (simp add: cleaned_text_def py_splitlines_def py_strip_Nil)

lemma sanitize_output_Str:
  "sanitize_output db (Str text) =
     Str (if findall_runs (cleaned_text db text) \<noteq> []
          then py_join [10] (findall_runs (cleaned_text db text))
          else cleaned_text db text)"
proof (cases "text = []")
  case True
  then show ?thesis by (simp add: sanitize_output_def cleaned_text_Nil)
next
  case False
  then show ?thesis by (simp add: sanitize_output_def Let_def strip_runs)
qed


lemma group_star_split:
  "s = [] \<or> \<not> arabic (hd s) \<Longrightarrow>
     s = fst (group_star s) @ snd (group_star s) \<and> (\<forall>c \<in> set (snd (group_star s)). \<not> arabic c)"
proof (induction s rule: group_star.induct)
  case (1 s)
  let ?n = "takeWhile (\<lambda>c. \<not> arabic c) s"
  let ?r1 = "dropWhile (\<lambda>c. \<not> arabic c) s"
  let ?a = "takeWhile arabic ?r1"
  let ?r2 = "dropWhile arabic ?r1"
  show ?case
  proof (cases "?n = [] \<or> ?a = []")
    case True
    then have g: "group_star s = ([], s)" by (subst group_star.simps) (simp add: Let_def)
    have "\<forall>c \<in> set s. \<not> arabic c"
    proof (cases "?n = []")
      case True
      then have "s = [] \<or> arabic (hd s)" by (simp add: takeWhile_eq_Nil_iff)
      with "1.prems" have "s = []" by blast
      then show ?thesis by simp
    next
      case False
      with True have "?a = []" by simp
      then have "?r1 = [] \<or> \<not> arabic (hd ?r1)" by (simp add: takeWhile_eq_Nil_iff)
      moreover have "?r1 \<noteq> [] \<Longrightarrow> arabic (hd ?r1)"
        using hd_dropWhile [of "\<lambda>c. \<not> arabic c" s] by simp
      ultimately have "?r1 = []" by blast
      then show ?thesis by (simp add: dropWhile_eq_Nil_conv)
    qed
    with g show ?thesis by simp
  next
    case False
    have "?r2 \<noteq> [] \<Longrightarrow> \<not> arabic (hd ?r2)"
      using hd_dropWhile [of arabic ?r1] by simp
    then have pre: "?r2 = [] \<or> \<not> arabic (hd ?r2)" by blast
    have ih: "?r2 = fst (group_star ?r2) @ snd (group_star ?r2)
        \<and> (\<forall>c \<in> set (snd (group_star ?r2)). \<not> arabic c)"
      using "1.IH" [OF refl refl refl refl False pre] .
    have f: "fst (group_star s) = ?n @ ?a @ fst (group_star ?r2)"
      using False by (subst group_star.simps) (simp add: Let_def split_beta)
    have r: "snd (group_star s) = snd (group_star ?r2)"
      using False by (subst group_star.simps) (simp add: Let_def split_beta)
    have "s = ?n @ ?r1" by simp
    also have "?r1 = ?a @ ?r2" by simp
    also have "?r2 = fst (group_star ?r2) @ snd (group_star ?r2)" using ih by blast
    finally have "s = ?n @ ?a @ fst (group_star ?r2) @ snd (group_star ?r2)" .
    then have "s = fst (group_star s) @ snd (group_star s)" unfolding f r by simp
    moreover have "\<forall>c \<in> set (snd (group_star s)). \<not> arabic c"
      unfolding r using ih by blast
    ultimately show ?thesis by blast
  qed
qed

lemma match_run_None: "\<not> arabic c \<Longrightarrow> match_run (c # cs) = None"
  by (simp add: match_run_def)

lemma match_run_Some:
  assumes "arabic c"
  shows "\<exists>m rest. match_run (c # cs) = Some (m, rest) \<and> c # cs = m @ rest
           \<and> (\<forall>d \<in> set rest. \<not> arabic d)"
proof -
  let ?s = "c # cs"
  let ?a = "takeWhile arabic ?s"
  let ?r1 = "dropWhile arabic ?s"
  have ne: "?a \<noteq> []" using assms by simp
  have "?r1 \<noteq> [] \<Longrightarrow> \<not> arabic (hd ?r1)" using hd_dropWhile [of arabic ?s] by blast
  then have "?r1 = [] \<or> \<not> arabic (hd ?r1)" by blast
  then have g: "?r1 = fst (group_star ?r1) @ snd (group_star ?r1)"
    "\<forall>d \<in> set (snd (group_star ?r1)). \<not> arabic d"
    using group_star_split [of ?r1] by blast+
  have m: "match_run ?s = Some (?a @ fst (group_star ?r1), snd (group_star ?r1))"
    using ne by (simp add: match_run_def Let_def split_beta)
  have "?s = ?a @ ?r1" by simp
  with g(1) have "?s = (?a @ fst (group_star ?r1)) @ snd (group_star ?r1)" by simp
  with m g(2) show ?thesis by blast
qed

lemma findall_runs_no_arabic: "\<forall>c \<in> set s. \<not> arabic c \<Longrightarrow> findall_runs s = []"
  by (induction s) (simp_all add: match_run_None)

lemma arabic_span_Cons: "\<not> arabic c \<Longrightarrow> arabic_span (c # cs) = arabic_span cs"
  by (simp add: arabic_span_def)

lemma arabic_span_run:
  assumes "arabic_ends m" "\<forall>d \<in> set rest. \<not> arabic d"
  shows "arabic_span (m @ rest) = m"
proof -
  from assms(1) have ne: "m \<noteq> []" and h: "arabic (hd m)" and l: "arabic (last m)"
    by (simp_all add: arabic_ends_def)
  from ne h have "dropWhile (\<lambda>c. \<not> arabic c) (m @ rest) = m @ rest"
    by (simp add: dropWhile_eq_self_iff)
  moreover have "\<And>x. x \<in> set (rev rest) \<Longrightarrow> \<not> arabic x" using assms(2) by simp
  then have "dropWhile (\<lambda>c. \<not> arabic c) (rev rest @ rev m) = dropWhile (\<lambda>c. \<not> arabic c) (rev m)"
    by (rule dropWhile_append2)
  moreover have "hd (rev m) = last m" using ne by (simp add: hd_rev)
  then have "dropWhile (\<lambda>c. \<not> arabic c) (rev m) = rev m"
    using l by (simp add: dropWhile_eq_self_iff)
  ultimately show ?thesis by (simp add: arabic_span_def)
qed

text \<open>
  The greedy pattern has at most one match in a text: it starts at the first Arabic code
  point and ends at the last.
\<close>

lemma findall_runs_span:
  "findall_runs s = (if list_ex arabic s then [arabic_span s] else [])"
proof (induction s)
  case Nil
  show ?case by simp
next
  case (Cons c cs)
  show ?case
  proof (cases "arabic c")
    case False
    then show ?thesis using Cons by (simp add: match_run_None arabic_span_Cons)
  next
    case True
    from match_run_Some [OF True, of cs] obtain m rest
      where m: "match_run (c # cs) = Some (m, rest)" and s: "c # cs = m @ rest"
      and r: "\<forall>d \<in> set rest. \<not> arabic d" by blast
    have "arabic_ends m" using m by (rule match_run_arabic_ends)
    then have "arabic_span (m @ rest) = m" using r by (rule arabic_span_run)
    with s have sp: "arabic_span (c # cs) = m" by simp
    have "findall_runs (c # cs) = m # findall_runs rest" using m by simp
    also have "findall_runs rest = []" using r by (rule findall_runs_no_arabic)
    finally show ?thesis using True sp by simp
  qed
qed











lemma spaced_hello_cleaned: "cleaned_text db (ascii '' Hello '') = ascii ''Hello''"
  by (simp add: cleaned_text_def py_splitlines_def ascii_def linebreak_def
      thought_pattern_search_def match_here_def thought_alternatives_def letters_def
      ignorecase_eq_def py_lower_def arabic_def ascii_lower_def py_strip_def isspace_def
      boilerplate_def)

lemma hello_no_runs: "findall_runs (ascii ''Hello'') = []"
  by (simp add: findall_runs_span ascii_def arabic_def)

section \<open>The sanitizer\<close>



text \<open>
  C6. The body of the sanitizer raises on no string, whatever its content, and on no
  value but a non-empty \<open>bytes\<close>; when the body raises, the sanitizer returns its argument
  as it got it. \<open>None\<close>, the empty string and the empty \<open>bytes\<close> are returned as they are.
  When the second pattern finds no run in the line-filtered text, the sanitizer returns
  that text, and the text is whole: the kept lines joined by line feeds, without the
  white space in front of and behind them.
\<close>

theorem sanitizer_never_raises_and_loses_nothing:
  "(\<exists>r. sanitize_body db (Str input) = Inr (Str r))
   \<and> (\<forall>e. sanitize_body db v = Inl e \<longrightarrow>
         (\<exists>b. v = Bytes b \<and> b \<noteq> []) \<and> sanitize_output db v = v)
   \<and> (b \<noteq> [] \<longrightarrow> (\<exists>e. sanitize_body db (Bytes b) = Inl e)
         \<and> sanitize_output db (Bytes b) = Bytes b)
   \<and> sanitize_output db NoneV = NoneV
   \<and> sanitize_output db (Str []) = Str []
   \<and> sanitize_output db (Bytes []) = Bytes []
   \<and> (findall_runs (cleaned_text db input) = [] \<longrightarrow>
         sanitize_output db (Str input) = Str (cleaned_text db input))
   \<and> (\<exists>pre post. py_join [10] (filter_lines db (py_splitlines input) [])
           = pre @ cleaned_text db input @ post
         \<and> list_all isspace pre \<and> list_all isspace post)"
proof -
  have "\<exists>r. sanitize_body db (Str input) = Inr (Str r)" by (simp add: Let_def)
  moreover have "\<forall>e. sanitize_body db v = Inl e \<longrightarrow>
         (\<exists>b. v = Bytes b \<and> b \<noteq> []) \<and> sanitize_output db v = v"
    by (cases v) (simp_all add: sanitize_output_def Let_def)
  moreover have "b \<noteq> [] \<longrightarrow> (\<exists>e. sanitize_body db (Bytes b) = Inl e)
         \<and> sanitize_output db (Bytes b) = Bytes b"
    by (simp add: sanitize_output_def)
  moreover have "sanitize_output db NoneV = NoneV" "sanitize_output db (Str []) = Str []"
    "sanitize_output db (Bytes []) = Bytes []"
    by (simp_all add: sanitize_output_def)
  moreover have "findall_runs (cleaned_text db input) = [] \<longrightarrow>
         sanitize_output db (Str input) = Str (cleaned_text db input)"
    by (simp add: sanitize_output_Str)
  moreover have "\<exists>pre post. py_join [10] (filter_lines db (py_splitlines input) [])
           = pre @ cleaned_text db input @ post
         \<and> list_all isspace pre \<and> list_all isspace post"
    unfolding cleaned_text_def by (rule py_strip_parts)
  ultimately show ?thesis by blast
qed

theorem sanitizer_never_raises_and_loses_nothing_witness:
  "sanitize_body db0 (Bytes [65])
     = Inl (ascii ''cannot use a string pattern on a bytes-like object'')
   \<and> sanitize_output db0 (Bytes [65]) = Bytes [65]
   \<and> findall_runs (cleaned_text db0 (ascii '' Hello '')) = []
   \<and> sanitize_output db0 (Str (ascii '' Hello '')) = Str (ascii ''Hello'')"
proof -
  note a = sanitizer_never_raises_and_loses_nothing [where db = db0
      and input = "ascii '' Hello ''" and v = "Bytes [65]" and b = "[65]"]
  have raises: "sanitize_body db0 (Bytes [65])
     = Inl (ascii ''cannot use a string pattern on a bytes-like object'')" by simp
  from a have "sanitize_body db0 (Bytes [65])
       = Inl (ascii ''cannot use a string pattern on a bytes-like object'')
     \<longrightarrow> sanitize_output db0 (Bytes [65]) = Bytes [65]" by blast
  with raises have kept: "sanitize_output db0 (Bytes [65]) = Bytes [65]" by blast
  have none: "findall_runs (cleaned_text db0 (ascii '' Hello '')) = []"
    by (simp add: spaced_hello_cleaned hello_no_runs)
  from a none have "sanitize_output db0 (Str (ascii '' Hello ''))
      = Str (cleaned_text db0 (ascii '' Hello ''))" by blast
  then have "sanitize_output db0 (Str (ascii '' Hello '')) = Str (ascii ''Hello'')"
    by (simp add: spaced_hello_cleaned)
  with raises kept none show ?thesis by blast
qed

end
